theory Spec2Isabelle
  imports Complex_Main
begin

section \<open>Conventions\<close>

text \<open>
  The engine is JavaScript. Numbers that the code rounds or floors into whole numbers are
  \<open>int\<close>; numbers that may carry a fraction (damage before rounding, multipliers, the
  values of \<open>Math.random()\<close>) are \<open>real\<close>, so arithmetic is exact where the
  program computes in double precision. Every call of \<open>Math.random()\<close> is an explicit
  argument of the function that makes it: a value \<open>u\<close> with \<open>0 \<le> u < 1\<close>.
  Objects that the code mutates in place are passed in and returned updated.
\<close>

text \<open>JavaScript's \<open>x || d\<close> on a number that may be missing: a missing value and 0 both
  give the default.\<close>

definition orElse :: "int option \<Rightarrow> int \<Rightarrow> int" where
  "orElse x d = (case x of None \<Rightarrow> d | Some v \<Rightarrow> if v = 0 then d else v)"

section \<open>dice.js\<close>

text \<open>\<open>roll(sides)\<close>: \<open>Math.floor(Math.random() * sides) + 1\<close>.\<close>

definition roll :: "int \<Rightarrow> real \<Rightarrow> int" where
  "roll sides u = \<lfloor>u * of_int sides\<rfloor> + 1"

definition statModifier :: "int \<Rightarrow> int" where
  "statModifier statValue = (statValue - 10) div 2"

datatype base_stat = Strength | Dexterity | Constitution | Intelligence | Wisdom | Charisma

definition SKILL_STAT_MAP :: "string \<rightharpoonup> base_stat" where
  "SKILL_STAT_MAP = map_of
     [(''melee'', Strength), (''ranged'', Dexterity), (''magic'', Intelligence),
      (''stealth'', Dexterity), (''perception'', Wisdom), (''persuasion'', Charisma),
      (''lockpicking'', Dexterity), (''survival'', Wisdom), (''crafting'', Intelligence),
      (''alchemy'', Intelligence)]"

datatype outcome = CriticalSuccess | CriticalFailure | Success | Partial | Failure

datatype roll_type = Advantage | Disadvantage | Normal

record roll_details =
  roll_type :: roll_type
  rolls :: "int list"
  used :: int

record perk_bonus =
  perk :: string
  effect :: "int option"

text \<open>The argument object of \<open>skillCheck\<close>. \<open>baseStats\<close> may be missing altogether, a
  stat or a skill may be missing from its table.\<close>

record check_params =
  skillName :: string
  dc :: int
  baseStats :: "(base_stat \<rightharpoonup> int) option"
  skills :: "(string \<rightharpoonup> int) option"
  critRange :: int
  perkBonuses :: "perk_bonus list"
  advantage :: bool
  disadvantage :: bool
  dcSource :: string
  dcOriginId :: "int option"

record dice_result =
  base_roll :: int
  roll_details :: roll_details
  stat_modifier :: int
  governing_stat :: "base_stat option"
  stat_value :: int
  skill_level :: int
  skill_bonus :: int
  perk_bonuses :: "perk_bonus list"
  perk_total :: int
  final_total :: int
  res_dc :: int
  dc_source :: string
  dc_origin_id :: "int option"
  passed :: bool
  outcome :: outcome
  is_critical :: bool
  is_fumble :: bool

text \<open>\<open>skillCheck\<close>. The two values \<open>u1\<close>, \<open>u2\<close> are the results of the calls of
  \<open>Math.random()\<close> behind \<open>roll(20)\<close>; a normal roll reads only \<open>u1\<close>.\<close>

definition skillCheck :: "check_params \<Rightarrow> real \<Rightarrow> real \<Rightarrow> dice_result" where
  "skillCheck p u1 u2 =
    (let (baseRoll, rollDetails) =
           (if advantage p \<and> \<not> disadvantage p then
              (let r1 = roll 20 u1; r2 = roll 20 u2; b = max r1 r2
               in (b, \<lparr>roll_type = Advantage, rolls = [r1, r2], used = b\<rparr>))
            else if disadvantage p \<and> \<not> advantage p then
              (let r1 = roll 20 u1; r2 = roll 20 u2; b = min r1 r2
               in (b, \<lparr>roll_type = Disadvantage, rolls = [r1, r2], used = b\<rparr>))
            else
              (let b = roll 20 u1
               in (b, \<lparr>roll_type = Normal, rolls = [b], used = b\<rparr>)));
         governingStat = SKILL_STAT_MAP (skillName p);
         statValue = (case governingStat of
                        None \<Rightarrow> 10
                      | Some g \<Rightarrow> (case baseStats p of
                                    None \<Rightarrow> 10
                                  | Some bs \<Rightarrow> orElse (bs g) 10));
         statMod = statModifier statValue;
         skillLevel = (case skills p of
                         None \<Rightarrow> 1
                       | Some sk \<Rightarrow> orElse (sk (skillName p)) 1);
         skillBonus = skillLevel div 10;
         perkTotal = foldl (\<lambda>sum q. sum + orElse (effect q) 0) 0 (perkBonuses p);
         finalTotal = baseRoll + statMod + skillBonus + perkTotal;
         isCriticalSuccess = (baseRoll \<ge> critRange p);
         isCriticalFailure = (baseRoll = 1);
         outc = (if isCriticalSuccess then CriticalSuccess
                 else if isCriticalFailure then CriticalFailure
                 else if finalTotal \<ge> dc p then Success
                 else if finalTotal \<ge> dc p - 2 then Partial
                 else Failure);
         pass = (outc = Success \<or> outc = CriticalSuccess \<or> outc = Partial)
     in \<lparr>base_roll = baseRoll, roll_details = rollDetails, stat_modifier = statMod,
         governing_stat = governingStat, stat_value = statValue, skill_level = skillLevel,
         skill_bonus = skillBonus, perk_bonuses = perkBonuses p, perk_total = perkTotal,
         final_total = finalTotal, res_dc = dc p, dc_source = dcSource p,
         dc_origin_id = dcOriginId p, passed = pass, outcome = outc,
         is_critical = isCriticalSuccess, is_fumble = isCriticalFailure\<rparr>)"

record damage_result =
  rawDamage :: int
  mitigatedDamage :: real
  armorReduced :: real
  resistanceMultiplier :: real
  resistanceApplied :: bool
  isCritical :: bool

text \<open>\<open>rollDamage\<close>. \<open>Math.round\<close> rounds half up, which is \<^const>\<open>round\<close>.
  \<open>u\<close> is the value of \<open>Math.random()\<close> behind the variance.\<close>

definition rollDamage :: "real \<Rightarrow> real \<Rightarrow> bool \<Rightarrow> real \<Rightarrow> real \<Rightarrow> real \<Rightarrow> damage_result" where
  "rollDamage baseDamage weaponBonus isCrit targetArmor resistanceMult u =
    (let variance = 0.8 + u * 0.4;
         raw0 = round ((baseDamage + weaponBonus) * variance);
         raw = (if isCrit then raw0 * 2 else raw0);
         afterResistance = round (of_int raw * resistanceMult);
         armorRed = min targetArmor (of_int afterResistance - 1);
         mitigated = max 1 (of_int afterResistance - targetArmor)
     in \<lparr>rawDamage = raw, mitigatedDamage = mitigated, armorReduced = max 0 armorRed,
         resistanceMultiplier = resistanceMult,
         resistanceApplied = (raw \<noteq> afterResistance), isCritical = isCrit\<rparr>)"

text \<open>\<open>randomDC\<close>.\<close>

definition randomDC :: "int \<Rightarrow> int \<Rightarrow> real \<Rightarrow> int" where
  "randomDC dcMin dcMax u = dcMin + \<lfloor>u * of_int (dcMax - dcMin + 1)\<rfloor>"

text \<open>\<open>weightedRandom\<close>: the loop subtracts each weight from the roll and returns the
  first entry at which the roll is used up; past the loop the last entry is returned.
  \<open>None\<close> is JavaScript's \<open>null\<close>.\<close>

fun weightedScan :: "(real \<times> 'a) list \<Rightarrow> real \<Rightarrow> 'a option" where
  "weightedScan [] r = None"
| "weightedScan ((w, x) # rest) r = (if r - w \<le> 0 then Some x else weightedScan rest (r - w))"

definition weightedRandom :: "(real \<times> 'a) list \<Rightarrow> real \<Rightarrow> 'a option" where
  "weightedRandom pool u =
    (let totalWeight = foldl (\<lambda>sum entry. sum + fst entry) 0 pool
     in if totalWeight \<le> 0 then None
        else (case weightedScan pool (u * totalWeight) of
                Some x \<Rightarrow> Some x
              | None \<Rightarrow> (if pool = [] then None else Some (snd (last pool)))))"

text \<open>A player with 14 Strength and melee level 23 attacking against DC 12.\<close>

definition demo_params :: check_params where
  "demo_params = \<lparr>skillName = ''melee'', dc = 12,
     baseStats = Some [Strength \<mapsto> 14], skills = Some [''melee'' \<mapsto> 23],
     critRange = 20, perkBonuses = [], advantage = False, disadvantage = False,
     dcSource = ''enemy_armor'', dcOriginId = None\<rparr>"

section \<open>loot.js\<close>

datatype source_type = EnemyKill | Chest | RoomDrop | BossSource | DungeonCompletion

datatype drop_type = Guaranteed | Weighted | Conditional | Never

text \<open>The five condition types of the \<open>loot_rules\<close> table; \<open>OtherCondition\<close> is any
  other string, which reaches the \<open>default\<close> branch of \<open>checkCondition\<close>.\<close>

datatype condition_type = NoCondition | MinSkill | MinCompletions | HasItem | HasNotItem
  | OtherCondition

text \<open>A row of \<open>getLootRulesForSource\<close>: a loot rule joined with its item. Nullable
  columns are options.\<close>

record loot_rule =
  rule_id :: int
  item_id :: int
  item_name :: string
  item_type :: string
  rarity :: "string option"
  base_value :: "int option"
  drop_type :: drop_type
  base_weight :: int
  condition_type :: condition_type
  condition_skill_name :: "string option"
  condition_skill_min :: "int option"
  condition_min_completions :: "int option"
  condition_requires_item_id :: "int option"
  requires_perception :: bool
  perception_dc :: "int option"

text \<open>The optional \<open>context\<close> argument; \<open>playerSkills\<close> maps a skill name to its level.\<close>

record loot_context =
  playerSkills :: "(string \<rightharpoonup> int) option"
  dungeonCompletions :: "int option"
  playerItemIds :: "int list option"
  perceptionLevel :: "int option"

definition empty_context :: loot_context where
  "empty_context = \<lparr>playerSkills = None, dungeonCompletions = None, playerItemIds = None,
     perceptionLevel = None\<rparr>"

record drop =
  drop_item_id :: int
  drop_item_name :: string
  drop_item_type :: string
  drop_rarity :: string
  drop_base_value :: int
  quantity :: int
  was_hidden :: bool

definition checkCondition :: "loot_rule \<Rightarrow> loot_context \<Rightarrow> bool" where
  "checkCondition rule ctx =
    (case condition_type rule of
       NoCondition \<Rightarrow> True
     | MinSkill \<Rightarrow>
         (case playerSkills ctx of
            None \<Rightarrow> False
          | Some ps \<Rightarrow>
              (case condition_skill_name rule of
                 None \<Rightarrow> False
               | Some n \<Rightarrow>
                   if n = [] then False
                   else (case ps n of
                           None \<Rightarrow> False
                         | Some level \<Rightarrow> level \<ge> orElse (condition_skill_min rule) 0)))
     | MinCompletions \<Rightarrow>
         orElse (dungeonCompletions ctx) 0 \<ge> orElse (condition_min_completions rule) 0
     | HasItem \<Rightarrow>
         (case playerItemIds ctx of
            None \<Rightarrow> False
          | Some ids \<Rightarrow> (case condition_requires_item_id rule of
                          None \<Rightarrow> False
                        | Some i \<Rightarrow> i \<in> set ids))
     | HasNotItem \<Rightarrow>
         (case playerItemIds ctx of
            None \<Rightarrow> True
          | Some ids \<Rightarrow> (case condition_requires_item_id rule of
                          None \<Rightarrow> True
                        | Some i \<Rightarrow> i \<notin> set ids))
     | OtherCondition \<Rightarrow> True)"

definition checkPerception :: "loot_rule \<Rightarrow> loot_context \<Rightarrow> bool" where
  "checkPerception rule ctx =
    (if \<not> requires_perception rule then True
     else (let level = orElse (perceptionLevel ctx) 1
           in level \<ge> orElse (perception_dc rule) 10 - 5))"

definition makeDrop :: "loot_rule \<Rightarrow> bool \<Rightarrow> drop" where
  "makeDrop rule wasHidden =
    \<lparr>drop_item_id = item_id rule, drop_item_name = item_name rule,
     drop_item_type = item_type rule,
     drop_rarity = (case rarity rule of None \<Rightarrow> ''common''
                    | Some s \<Rightarrow> if s = [] then ''common'' else s),
     drop_base_value = orElse (base_value rule) 0, quantity = 1,
     was_hidden = wasHidden\<rparr>"

text \<open>The loop over the guaranteed rules, pushing onto \<open>drops\<close>.\<close>

fun guaranteedLoop :: "loot_rule list \<Rightarrow> loot_context \<Rightarrow> drop list \<Rightarrow> drop list" where
  "guaranteedLoop [] ctx drops = drops"
| "guaranteedLoop (rule # rest) ctx drops =
    (if checkCondition rule ctx then
       (if requires_perception rule \<and> \<not> checkPerception rule ctx
        then guaranteedLoop rest ctx drops
        else guaranteedLoop rest ctx (drops @ [makeDrop rule (requires_perception rule)]))
     else guaranteedLoop rest ctx drops)"

text \<open>One round of the weighted loop: a draw from the pool, pushed unless an earlier
  drop has the same item.\<close>

definition weightedRound :: "loot_rule list \<Rightarrow> real \<Rightarrow> drop list \<Rightarrow> drop list" where
  "weightedRound eligibleWeighted u drops =
    (let pool = map (\<lambda>r. (of_int (base_weight r), r)) eligibleWeighted
     in case weightedRandom pool u of
          None \<Rightarrow> drops
        | Some selected \<Rightarrow>
            if \<not> (\<exists>d \<in> set drops. drop_item_id d = item_id selected)
            then drops @ [makeDrop selected (requires_perception selected)]
            else drops)"

text \<open>\<open>resolveLoot\<close>. \<open>lootRules\<close> is the query \<open>getLootRulesForSource\<close>; \<open>rnd i\<close> is
  the value of \<open>Math.random()\<close> in round \<open>i\<close> of the weighted loop.\<close>

definition resolveLoot ::
  "(source_type \<Rightarrow> int \<Rightarrow> loot_rule list) \<Rightarrow> source_type \<Rightarrow> int \<Rightarrow> loot_context
     \<Rightarrow> (nat \<Rightarrow> real) \<Rightarrow> drop list" where
  "resolveLoot lootRules sourceType sourceId ctx rnd =
    (let rules = lootRules sourceType sourceId
     in if rules = [] then []
        else
          (let guaranteed = filter (\<lambda>r. drop_type r = Guaranteed) rules;
               weighted = filter (\<lambda>r. drop_type r = Weighted) rules;
               drops = guaranteedLoop guaranteed ctx [];
               eligibleWeighted =
                 filter (\<lambda>r. if \<not> checkCondition r ctx then False
                              else if requires_perception r \<and> \<not> checkPerception r ctx then False
                              else True) weighted
           in if eligibleWeighted \<noteq> [] then
                (let rollCount = (if sourceType = Chest \<or> sourceType = BossSource
                                  then 2 else 1 :: nat)
                 in fold (\<lambda>i ds. weightedRound eligibleWeighted (rnd i) ds) [0..<rollCount] drops)
              else drops))"

text \<open>\<open>rollGoldDrop\<close>.\<close>

definition rollGoldDrop :: "int \<Rightarrow> int \<Rightarrow> real \<Rightarrow> int" where
  "rollGoldDrop gmin gmax u =
    (if gmax \<le> gmin then gmin else gmin + \<lfloor>u * of_int (gmax - gmin + 1)\<rfloor>)"

text \<open>Loot tables used as concrete inputs below.\<close>

definition plain_rule :: "int \<Rightarrow> int \<Rightarrow> drop_type \<Rightarrow> int \<Rightarrow> loot_rule" where
  "plain_rule rid item dt w =
    \<lparr>rule_id = rid, item_id = item, item_name = ''item'', item_type = ''material'',
     rarity = None, base_value = None, drop_type = dt, base_weight = w,
     condition_type = NoCondition, condition_skill_name = None, condition_skill_min = None,
     condition_min_completions = None, condition_requires_item_id = None,
     requires_perception = False, perception_dc = None\<rparr>"

definition hidden_rule :: loot_rule where
  "hidden_rule = (plain_rule 1 7 Guaranteed 0)\<lparr>requires_perception := True, perception_dc := Some 6\<rparr>"

definition hidden_table :: "source_type \<Rightarrow> int \<Rightarrow> loot_rule list" where
  "hidden_table st sid = (if st = EnemyKill \<and> sid = 1 then [hidden_rule] else [])"

definition twin_table :: "source_type \<Rightarrow> int \<Rightarrow> loot_rule list" where
  "twin_table st sid =
    (if st = Chest \<and> sid = 1
     then [plain_rule 1 5 Guaranteed 0, plain_rule 2 5 Guaranteed 0] else [])"

definition chest_table :: "source_type \<Rightarrow> int \<Rightarrow> loot_rule list" where
  "chest_table st sid =
    (if st = Chest \<and> sid = 1
     then [plain_rule 1 5 Guaranteed 0, plain_rule 2 5 Weighted 10, plain_rule 3 6 Weighted 5]
     else [])"

definition chest_draws :: "nat \<Rightarrow> real" where
  "chest_draws i = (if i = 0 then 0 else 9/10)"

text \<open>A rule passes both gates of \<open>resolveLoot\<close>: its condition, and its perception
  check when it requires perception.\<close>

definition fires :: "loot_context \<Rightarrow> loot_rule \<Rightarrow> bool" where
  "fires ctx r \<longleftrightarrow> checkCondition r ctx \<and> (requires_perception r \<longrightarrow> checkPerception r ctx)"

section \<open>Enemy instances and rooms\<close>

text \<open>An enemy instance as \<open>createEnemyInstance\<close> builds it, with the fields that damage
  resolution and skill checks read or write. \<open>resistances\<close> maps a damage type to its
  multiplier and may be missing.\<close>

record enemy =
  enemy_id :: int
  name :: string
  hp_current :: int
  hp_max :: int
  damage :: int
  armor :: int
  resistances :: "(string \<rightharpoonup> real) option"
  is_boss :: bool
  is_dead :: bool
  xp_reward :: int
  gold_reward_min :: int
  gold_reward_max :: int
  awareness :: string
  dc_modifier :: int
  skip_next_action :: bool

datatype room_type = Standard | Treasure | Trap | Rest | Locked | Boss

record lock =
  lock_dc :: int
  requires_key :: bool
  is_picked :: bool

record chest =
  is_opened :: bool
  is_locked :: bool
  chest_lock_dc :: "int option"
  is_looted :: bool

record trap =
  trap_name :: string
  damage_type :: string
  trap_damage :: int
  trap_effect :: "string option"
  trap_check :: string
  trap_dc :: int
  is_triggered :: bool
  is_disarmed :: bool

text \<open>A room of the floor map. \<open>rtype\<close> is the room's \<open>type\<close>; \<open>None\<close> is the
  \<open>null\<close> that \<open>weightedRandom\<close> can return. \<open>search_count\<close> is absent until the room
  is searched. The rest room's record is its \<open>heal_percent\<close>; the geometry tags, which no
  function of the engine reads, are left out.\<close>

record room =
  room_number :: int
  rtype :: "room_type option"
  is_cleared :: bool
  is_accessible :: bool
  connections :: "int list"
  actions_in_room_count :: int
  enemies :: "enemy list"
  trap :: "trap option"
  chest :: "chest option"
  lock :: "lock option"
  rest_heal_percent :: "real option"
  is_exit :: bool
  is_boss_room :: bool
  search_count :: "int option"

text \<open>The floor map \<open>{ rooms }\<close> is its list of rooms.\<close>

type_synonym floor_map = "room list"

section \<open>floor-generator.js\<close>

text \<open>The values of \<open>Math.random()\<close> that the generator reads for one room, each call site
  under its own name. \<open>spawned\<close> is the list that \<open>spawnEnemies\<close> returns for the room
  when it is called; enemy spawning is not unfolded further. \<open>branch_u\<close> and \<open>target_u\<close>
  belong to the branch loop of \<open>generateConnections\<close> at the room's index.\<close>

record room_draws =
  type_u :: real
  enemy_u :: real
  spawned :: "enemy list"
  trap_u :: real
  trap_dc_u :: real
  chest_lock_u :: real
  chest_dc_u :: real
  std_chest_u :: real
  lock_dc_u :: real
  heal_u :: real
  branch_u :: real
  target_u :: real

definition unit_draw :: "real \<Rightarrow> bool" where
  "unit_draw u \<longleftrightarrow> 0 \<le> u \<and> u < 1"

definition valid_draws :: "room_draws \<Rightarrow> bool" where
  "valid_draws d \<longleftrightarrow> unit_draw (type_u d) \<and> unit_draw (enemy_u d) \<and> unit_draw (trap_u d)
     \<and> unit_draw (trap_dc_u d) \<and> unit_draw (chest_lock_u d) \<and> unit_draw (chest_dc_u d)
     \<and> unit_draw (std_chest_u d) \<and> unit_draw (lock_dc_u d) \<and> unit_draw (heal_u d)
     \<and> unit_draw (branch_u d) \<and> unit_draw (target_u d)"

definition pickRoomType :: "int \<Rightarrow> real \<Rightarrow> room_type option" where
  "pickRoomType floorNumber u =
    (let pool = [(45, Standard), (15, Treasure), (15, Trap), (10, Rest), (10, Locked)];
         pool' = (if floorNumber \<ge> 2
                  then map (\<lambda>(w, t). if t = Trap then (w + 5, t)
                                     else if t = Locked then (w + 5, t)
                                     else if t = Standard then (w - 10, t)
                                     else (w, t)) pool
                  else pool)
     in weightedRandom pool' u)"

definition trap_table :: "(string \<times> string \<times> int \<times> string option \<times> string) list" where
  "trap_table =
    [(''Poison Dart Trap'', ''piercing'', 8, Some ''poison'', ''perception''),
     (''Flame Jet'', ''fire'', 12, None, ''dexterity''),
     (''Collapsing Floor'', ''blunt'', 10, Some ''stun'', ''perception''),
     (''Necrotic Rune'', ''necrotic'', 15, None, ''magic''),
     (''Spider Web Ambush'', ''piercing'', 6, Some ''stun'', ''perception'')]"

definition generateTrap :: "int \<Rightarrow> int \<Rightarrow> real \<Rightarrow> real \<Rightarrow> trap" where
  "generateTrap dcMin dcMax u dc_u =
    (case trap_table ! nat \<lfloor>u * 5\<rfloor> of
       (n, dt, dmg, eff, chk) \<Rightarrow>
         \<lparr>trap_name = n, damage_type = dt, trap_damage = dmg, trap_effect = eff,
          trap_check = chk, trap_dc = randomDC dcMin dcMax dc_u,
          is_triggered = False, is_disarmed = False\<rparr>)"

definition createRoom ::
  "int \<Rightarrow> room_type option \<Rightarrow> int \<Rightarrow> int \<Rightarrow> bool \<Rightarrow> bool \<Rightarrow> bool \<Rightarrow> room_draws \<Rightarrow> room" where
  "createRoom number t dcMin dcMax isEntrance isBossRoom isExit d =
    \<lparr>room_number = number,
     rtype = t,
     is_cleared = False,
     is_accessible = (if t = Some Locked then False else number = 1),
     connections = [],
     actions_in_room_count = 0,
     enemies =
       (if t = Some Standard \<and> \<not> isEntrance then (if enemy_u d < 0.6 then spawned d else [])
        else if t = Some Trap then (if enemy_u d < 0.3 then spawned d else [])
        else if t = Some Boss then spawned d
        else []),
     trap = (if t = Some Trap
             then Some (generateTrap dcMin dcMax (trap_u d) (trap_dc_u d)) else None),
     chest =
       (if t = Some Treasure then
          (let locked = (chest_lock_u d < 0.4)
           in Some \<lparr>is_opened = False, is_locked = locked,
                    chest_lock_dc = (if locked then Some (randomDC dcMin dcMax (chest_dc_u d))
                                     else None),
                    is_looted = False\<rparr>)
        else if t = Some Standard \<and> \<not> isEntrance \<and> std_chest_u d < 0.15 then
          Some \<lparr>is_opened = False, is_locked = False, chest_lock_dc = None, is_looted = False\<rparr>
        else None),
     lock = (if t = Some Locked
             then Some \<lparr>lock_dc = randomDC (dcMin + 2) (dcMax + 2) (lock_dc_u d),
                        requires_key = False, is_picked = False\<rparr>
             else None),
     rest_heal_percent = (if t = Some Rest then Some (0.2 + heal_u d * 0.15) else None),
     is_exit = isExit,
     is_boss_room = isBossRoom,
     search_count = None\<rparr>"

text \<open>One round of the first loop of \<open>generateConnections\<close>: rooms \<open>i\<close> and \<open>i + 1\<close>
  are linked both ways, and the later room is closed unless it is a locked room.\<close>

definition linkStep :: "nat \<Rightarrow> room list \<Rightarrow> room list" where
  "linkStep i rooms =
    (let from = rooms ! i;
         to = rooms ! (i + 1);
         from' = (if room_number to \<in> set (connections from) then from
                  else from\<lparr>connections := connections from @ [room_number to]\<rparr>);
         to1 = (if room_number from \<in> set (connections to) then to
                else to\<lparr>connections := connections to @ [room_number from]\<rparr>);
         to2 = (if rtype to1 \<noteq> Some Locked then to1\<lparr>is_accessible := False\<rparr> else to1)
     in rooms[i := from', i + 1 := to2])"

text \<open>One round of the second loop: with chance 20% room index \<open>i\<close> gets a side connection
  to an index 2 or 3 ahead.\<close>

definition branchStep :: "(nat \<Rightarrow> room_draws) \<Rightarrow> nat \<Rightarrow> room list \<Rightarrow> room list" where
  "branchStep draws i rooms =
    (if branch_u (draws i) < 0.2 then
       (let target = i + 2 + nat \<lfloor>target_u (draws i) * real (min 2 (length rooms - i - 2))\<rfloor>
        in if target < length rooms then
             (let r1 = rooms[i := (rooms ! i)\<lparr>connections :=
                          connections (rooms ! i) @ [room_number (rooms ! target)]\<rparr>]
              in r1[target := (r1 ! target)\<lparr>connections :=
                          connections (r1 ! target) @ [room_number (r1 ! i)]\<rparr>])
           else rooms)
     else rooms)"

text \<open>\<open>generateConnections\<close>. It is only called on the list that \<open>generateFloor\<close> has
  built, which holds at least the entrance and the last room.\<close>

definition generateConnections :: "(nat \<Rightarrow> room_draws) \<Rightarrow> room list \<Rightarrow> room list" where
  "generateConnections draws rooms =
    (let r1 = fold linkStep [0..<length rooms - 1] rooms;
         r2 = r1[0 := (r1 ! 0)\<lparr>is_accessible := True\<rparr>]
     in fold (branchStep draws) [1..<length rooms - 2] r2)"

text \<open>\<open>generateFloor\<close>. \<open>count_u\<close> is the draw behind \<open>roll(3)\<close>; \<open>draws n\<close> holds the
  draws of room number \<open>n\<close> (and of index \<open>n\<close> in the branch loop).\<close>

definition generateFloor ::
  "int \<Rightarrow> int \<Rightarrow> nat \<Rightarrow> bool \<Rightarrow> real \<Rightarrow> (nat \<Rightarrow> room_draws) \<Rightarrow> floor_map" where
  "generateFloor dcMin dcMax floorNumber isFinalFloor count_u draws =
    (let baseRoomCount = 4 + int (floorNumber div 2);
         roomCount = baseRoomCount + roll 3 count_u - 1;
         entrance = createRoom 1 (Some Standard) dcMin dcMax True False False (draws 1);
         middle = map (\<lambda>i. let t = pickRoomType (int floorNumber) (type_u (draws (nat i)));
                               t' = (if i = 2 \<and> t = Some Locked then Some Standard else t)
                           in createRoom i t' dcMin dcMax False False False (draws (nat i)))
                      [2..roomCount - 1];
         final = (if isFinalFloor
                  then createRoom roomCount (Some Boss) dcMin dcMax False True False
                         (draws (nat roomCount))
                  else createRoom roomCount (Some Standard) dcMin dcMax False False True
                         (draws (nat roomCount)))
     in generateConnections draws ((entrance # middle) @ [final]))"

text \<open>\<open>floorMap.rooms.find(r => r.room_number === n)\<close>: the index of the first room with
  that number, and \<open>getCurrentRoom\<close>.\<close>

fun findRoom :: "room list \<Rightarrow> int \<Rightarrow> nat option" where
  "findRoom [] n = None"
| "findRoom (r # rs) n = (if room_number r = n then Some 0 else map_option Suc (findRoom rs n))"

definition getCurrentRoom :: "floor_map \<Rightarrow> int \<Rightarrow> room option" where
  "getCurrentRoom floorMap n = map_option (\<lambda>i. floorMap ! i) (findRoom floorMap n)"

text \<open>One round of the loop of \<open>clearRoom\<close> over the connections of the cleared room.\<close>

definition clearStep :: "int \<Rightarrow> room list \<times> int list \<Rightarrow> room list \<times> int list" where
  "clearStep connectedNum st =
    (case st of (rooms, newlyAccessible) \<Rightarrow>
       (case findRoom rooms connectedNum of
          None \<Rightarrow> (rooms, newlyAccessible)
        | Some j \<Rightarrow>
            if \<not> is_accessible (rooms ! j) \<and> rtype (rooms ! j) \<noteq> Some Locked
            then (rooms[j := (rooms ! j)\<lparr>is_accessible := True\<rparr>],
                  newlyAccessible @ [connectedNum])
            else (rooms, newlyAccessible)))"

text \<open>\<open>clearRoom\<close> returns the list of newly accessible room numbers; the floor map it
  has updated in place is returned with it.\<close>

definition clearRoom :: "floor_map \<Rightarrow> int \<Rightarrow> floor_map \<times> int list" where
  "clearRoom floorMap roomNumber =
    (case findRoom floorMap roomNumber of
       None \<Rightarrow> (floorMap, [])
     | Some i \<Rightarrow>
         fold clearStep (connections (floorMap ! i))
           (floorMap[i := (floorMap ! i)\<lparr>is_cleared := True\<rparr>], []))"

definition unlockRoom :: "floor_map \<Rightarrow> int \<Rightarrow> floor_map" where
  "unlockRoom floorMap roomNumber =
    (case findRoom floorMap roomNumber of
       None \<Rightarrow> floorMap
     | Some i \<Rightarrow>
         floorMap[i := (floorMap ! i)\<lparr>is_accessible := True,
                    lock := map_option (\<lambda>l. l\<lparr>is_picked := True\<rparr>) (lock (floorMap ! i))\<rparr>])"

text \<open>Sequences of \<open>clearRoom\<close> and \<open>unlockRoom\<close> calls on a floor map.\<close>

datatype floor_op = ClearRoom int | UnlockRoom int

fun applyOp :: "floor_op \<Rightarrow> floor_map \<Rightarrow> floor_map" where
  "applyOp (ClearRoom n) fm = fst (clearRoom fm n)"
| "applyOp (UnlockRoom n) fm = unlockRoom fm n"

text \<open>The connection graph of a floor map: an edge from a room's number to each number in
  its connection list.\<close>

definition edges :: "floor_map \<Rightarrow> (int \<times> int) set" where
  "edges fm = {(a, b). \<exists>r \<in> set fm. room_number r = a \<and> b \<in> set (connections r)}"

section \<open>Notions used in the floor map properties\<close>

text \<open>What \<open>clearRoom\<close> does to a single room, given the cleared room's number and
  connection list.\<close>

definition openRoom :: "int list \<Rightarrow> room \<Rightarrow> room" where
  "openRoom cs a =
    (if \<not> is_accessible a \<and> room_number a \<in> set cs \<and> rtype a \<noteq> Some Locked
     then a\<lparr>is_accessible := True\<rparr> else a)"

text \<open>The numbers of the rooms that a \<open>clearRoom\<close> over the connection list \<open>cs\<close>
  opens: connected, closed so far, and not locked.\<close>

definition newlyOpened :: "room list \<Rightarrow> int list \<Rightarrow> int set" where
  "newlyOpened rs cs = {room_number a | a. a \<in> set rs \<and> room_number a \<in> set cs
       \<and> \<not> is_accessible a \<and> rtype a \<noteq> Some Locked}"

text \<open>The first statement of \<open>clearRoom\<close> as a map over the rooms.\<close>

definition markCleared :: "int \<Rightarrow> room \<Rightarrow> room" where
  "markCleared n a = (if room_number a = n then a\<lparr>is_cleared := True\<rparr> else a)"

text \<open>How the loops of \<open>generateConnections\<close> may change a room list: numbers and types
  stay, connection lists only gain entries, no room is opened.\<close>

definition grows :: "room list \<Rightarrow> room list \<Rightarrow> bool" where
  "grows rs rs' \<longleftrightarrow> length rs' = length rs
     \<and> (\<forall>k < length rs. room_number (rs' ! k) = room_number (rs ! k)
            \<and> rtype (rs' ! k) = rtype (rs ! k)
            \<and> set (connections (rs ! k)) \<subseteq> set (connections (rs' ! k))
            \<and> (is_accessible (rs' ! k) \<longrightarrow> is_accessible (rs ! k)))"

text \<open>What one \<open>clearRoom\<close> or \<open>unlockRoom\<close> call may change: numbers, types and
  connections stay, no room is closed, and a locked room is opened only by \<open>unlockRoom\<close> on
  its number.\<close>

definition opInv :: "floor_op \<Rightarrow> floor_map \<Rightarrow> floor_map \<Rightarrow> bool" where
  "opInv op fm fm' \<longleftrightarrow> length fm' = length fm
     \<and> (\<forall>k < length fm.
           room_number (fm' ! k) = room_number (fm ! k)
         \<and> rtype (fm' ! k) = rtype (fm ! k)
         \<and> connections (fm' ! k) = connections (fm ! k)
         \<and> (is_accessible (fm ! k) \<longrightarrow> is_accessible (fm' ! k))
         \<and> (is_accessible (fm' ! k) \<and> rtype (fm ! k) = Some Locked
               \<longrightarrow> is_accessible (fm ! k) \<or> op = UnlockRoom (room_number (fm ! k))))"

text \<open>Concrete draws, floors and operations used as inputs below.\<close>

definition zero_draws :: "nat \<Rightarrow> real" where
  "zero_draws i = 0"

definition demo_room_draws :: room_draws where
  "demo_room_draws = \<lparr>type_u = 19/20, enemy_u = 1/2, spawned = [], trap_u = 1/2,
     trap_dc_u = 1/2, chest_lock_u = 1/2, chest_dc_u = 1/2, std_chest_u = 1/2,
     lock_dc_u = 1/2, heal_u = 1/2, branch_u = 1/10, target_u = 1/2\<rparr>"

definition demo_draws :: "nat \<Rightarrow> room_draws" where
  "demo_draws i = demo_room_draws"

definition demo_floor :: floor_map where
  "demo_floor = generateFloor 8 14 1 False (1/2) demo_draws"

definition plain_room :: "int \<Rightarrow> room_type \<Rightarrow> bool \<Rightarrow> int list \<Rightarrow> room" where
  "plain_room n t acc cs =
    \<lparr>room_number = n, rtype = Some t, is_cleared = False, is_accessible = acc,
     connections = cs, actions_in_room_count = 0, enemies = [], trap = None, chest = None,
     lock = (if t = Locked then Some \<lparr>lock_dc = 14, requires_key = False, is_picked = False\<rparr>
             else None),
     rest_heal_percent = None, is_exit = False, is_boss_room = False, search_count = None\<rparr>"

definition demo_map :: floor_map where
  "demo_map = [plain_room 1 Standard True [2, 3], plain_room 2 Standard False [1, 3],
               plain_room 3 Locked False [2, 1]]"

definition demo_ops :: "floor_op list" where
  "demo_ops = [ClearRoom 1, UnlockRoom 3]"

section \<open>combat.js\<close>

text \<open>
  \<open>damageEnemy\<close> mutates the enemy object it is given and reads the enemies of the room
  state, which are references to enemy objects (and may or may not include the target).
  Enemy objects therefore live in a store, addressed by \<open>nat\<close>; the room state holds
  addresses.
\<close>

type_synonym enemy_store = "nat \<Rightarrow> enemy"

record room_state =
  is_combat_active :: bool
  round_number :: int
  enemy_refs :: "nat list"

record enemy_damage =
  damageDealt :: int
  raw_damage :: real
  resistance_applied :: bool
  resistance_multiplier :: real
  armor_reduced :: int
  enemyDied :: bool
  loot :: "drop list"
  goldDrop :: int
  xpReward :: int

text \<open>\<open>damageEnemy(enemy, damage, damageType, player, roomState)\<close>; the unused \<open>player\<close>
  is left out. \<open>lootRules\<close> is the loot query, \<open>loot_rnd\<close> and \<open>gold_u\<close> are the draws of
  \<open>resolveLoot\<close> and \<open>rollGoldDrop\<close>. Returned are the result object, the store and the room
  state.\<close>

definition damageEnemy ::
  "(source_type \<Rightarrow> int \<Rightarrow> loot_rule list) \<Rightarrow> enemy_store \<Rightarrow> nat \<Rightarrow> real \<Rightarrow> string
     \<Rightarrow> room_state \<Rightarrow> (nat \<Rightarrow> real) \<Rightarrow> real \<Rightarrow> enemy_damage \<times> enemy_store \<times> room_state" where
  "damageEnemy lootRules store e dmg damageType roomState loot_rnd gold_u =
    (let enemy = store e;
         resistance = (case resistances enemy of
                         None \<Rightarrow> 1
                       | Some m \<Rightarrow> (case m damageType of None \<Rightarrow> 1 | Some x \<Rightarrow> x));
         afterResistance = round (dmg * resistance);
         afterArmor = max 1 (afterResistance - armor enemy);
         enemy1 = enemy\<lparr>hp_current := hp_current enemy - afterArmor\<rparr>;
         result = \<lparr>damageDealt = afterArmor, raw_damage = dmg,
                   resistance_applied = (resistance \<noteq> 1),
                   resistance_multiplier = resistance,
                   armor_reduced = max 0 (afterResistance - afterArmor),
                   enemyDied = False, loot = [], goldDrop = 0, xpReward = 0\<rparr>
     in if hp_current enemy1 \<le> 0 then
          (let enemy2 = enemy1\<lparr>hp_current := 0, is_dead := True\<rparr>;
               store2 = store(e := enemy2);
               sourceType = (if is_boss enemy2 then BossSource else EnemyKill);
               result2 = result\<lparr>enemyDied := True,
                           loot := resolveLoot lootRules sourceType (enemy_id enemy2)
                                     empty_context loot_rnd,
                           goldDrop := rollGoldDrop (gold_reward_min enemy2)
                                         (gold_reward_max enemy2) gold_u,
                           xpReward := xp_reward enemy2\<rparr>;
               allDead = (\<forall>a \<in> set (enemy_refs roomState). is_dead (store2 a))
           in (result2, store2,
               if allDead then roomState\<lparr>is_combat_active := False\<rparr> else roomState))
        else (result, store(e := enemy1), roomState))"

text \<open>Concrete enemies and a room used as inputs below.\<close>

definition plain_enemy :: "int \<Rightarrow> int \<Rightarrow> bool \<Rightarrow> enemy" where
  "plain_enemy eid hp dead =
    \<lparr>enemy_id = eid, name = ''Crypt Rat'', hp_current = hp, hp_max = 20, damage = 4,
     armor = 2, resistances = None, is_boss = False, is_dead = dead, xp_reward = 10,
     gold_reward_min = 1, gold_reward_max = 5, awareness = ''idle'', dc_modifier = 0,
     skip_next_action = False\<rparr>"

definition demo_store :: enemy_store where
  "demo_store a = (if a = 0 then plain_enemy 1 5 False else plain_enemy 2 20 False)"

definition demo_room_state :: room_state where
  "demo_room_state = \<lparr>is_combat_active = True, round_number = 1, enemy_refs = [0, 1]\<rparr>"

definition no_loot :: "source_type \<Rightarrow> int \<Rightarrow> loot_rule list" where
  "no_loot st sid = []"

definition demo_hit :: "enemy_damage \<times> enemy_store \<times> room_state" where
  "demo_hit = damageEnemy no_loot demo_store 0 10 ''blunt'' demo_room_state zero_draws 0"

section \<open>Database queries used by the action processor\<close>

text \<open>A row of \<open>getInventory\<close>: an inventory row joined with its item.\<close>

record inventory_row =
  inv_id :: int
  inv_item_id :: int
  inv_item_name :: string
  inv_quantity :: int

text \<open>\<open>queries.removeItem(inventoryRowId, quantity)\<close>: nothing without the row; the row is
  deleted when it holds no more than \<open>quantity\<close>, else its quantity is lowered.\<close>

definition removeItem :: "inventory_row list \<Rightarrow> int \<Rightarrow> int \<Rightarrow> inventory_row list" where
  "removeItem inventory rowId qty =
    (case find (\<lambda>r. inv_id r = rowId) inventory of
       None \<Rightarrow> inventory
     | Some row \<Rightarrow>
         if inv_quantity row \<le> qty then filter (\<lambda>r. inv_id r \<noteq> rowId) inventory
         else map (\<lambda>r. if inv_id r = rowId then r\<lparr>inv_quantity := inv_quantity r - qty\<rparr> else r)
                inventory)"

text \<open>A row of \<open>player_skills\<close>, and the table of one player by skill name.\<close>

record skill_row =
  level :: int
  xp :: int
  true_level :: int

type_synonym skill_table = "string \<rightharpoonup> skill_row"

datatype run_status = Active | Processing | Completed | Dead | Abandoned

text \<open>A row of \<open>active_runs\<close> with the columns the lock of a turn reads and writes.\<close>

record run_row =
  run_id :: int
  player_id :: int
  status :: run_status
  pending_action_text :: "string option"
  current_floor :: int
  current_room :: int

text \<open>The database: the \<open>active_runs\<close> table, and everything else (players, inventory,
  floor maps, the action log, the JSON columns of a run) as a value of type \<open>'d\<close>.\<close>

record 'd database =
  active_runs :: "run_row list"
  other_tables :: 'd

text \<open>\<open>getActiveRun\<close>: the first run of the player with status \<open>active\<close> or
  \<open>processing\<close>.\<close>

definition getActiveRun :: "'d database \<Rightarrow> int \<Rightarrow> run_row option" where
  "getActiveRun db playerId =
    find (\<lambda>r. player_id r = playerId \<and> (status r = Active \<or> status r = Processing))
      (active_runs db)"

text \<open>\<open>updateRunState(runId, updates)\<close>: the update is applied to the rows with that id.\<close>

definition updateRunState :: "'d database \<Rightarrow> int \<Rightarrow> (run_row \<Rightarrow> run_row) \<Rightarrow> 'd database" where
  "updateRunState db runId updates =
    db\<lparr>active_runs := map (\<lambda>r. if run_id r = runId then updates r else r) (active_runs db)\<rparr>"

section \<open>The action processor: \<open>processAction\<close>\<close>

datatype 'e action_error = NoActiveRun | RunNotActive | Thrown 'e

text \<open>What the lock of a turn reads of the result object.\<close>

record 'r turn_result =
  runDied :: bool
  runComplete :: bool
  turn_payload :: 'r

text \<open>The three update objects that \<open>processAction\<close> passes to \<open>updateRunState\<close>: taking
  the lock, releasing it with the new status of the run, and the \<open>catch\<close> block's.\<close>

definition lockTurn :: "string \<Rightarrow> run_row \<Rightarrow> run_row" where
  "lockTurn actionText r = r\<lparr>status := Processing, pending_action_text := Some actionText\<rparr>"

definition closeTurn :: "'r turn_result \<Rightarrow> run_row \<Rightarrow> run_row" where
  "closeTurn result r =
    r\<lparr>status := (if runDied result then Dead
                   else if runComplete result then Completed
                   else Active),
      pending_action_text := None\<rparr>"

definition restoreActive :: "run_row \<Rightarrow> run_row" where
  "restoreActive r = r\<lparr>status := Active, pending_action_text := None\<rparr>"

text \<open>
  \<open>processAction\<close>. The body of its \<open>try\<close> block enters as three functions on the
  database, each of which may throw (\<open>Inl\<close>) after having written to the database:
  \<open>resolve\<close> is the turn up to the final death check (loading, status effects, intent,
  handlers, enemy turns), \<open>persist\<close> is \<open>applyResults\<close> with the save of the floor
  map, and \<open>logTurn\<close> is the write of the action log. Between \<open>persist\<close> and
  \<open>logTurn\<close> the run row gets its new status and loses its pending marker. The
  \<open>catch\<close> block sets the row back to \<open>active\<close> and throws the error on.
\<close>

definition processAction ::
  "(run_row \<Rightarrow> string \<Rightarrow> 'd database \<Rightarrow> ('e + 'r turn_result) \<times> 'd database)
   \<Rightarrow> (run_row \<Rightarrow> 'r turn_result \<Rightarrow> 'd database \<Rightarrow> ('e + 'r turn_result) \<times> 'd database)
   \<Rightarrow> (run_row \<Rightarrow> 'r turn_result \<Rightarrow> 'd database \<Rightarrow> ('e + unit) \<times> 'd database)
   \<Rightarrow> 'd database \<Rightarrow> int \<Rightarrow> string \<Rightarrow> ('e action_error + 'r turn_result) \<times> 'd database" where
  "processAction resolve persist logTurn db playerId actionText =
    (case getActiveRun db playerId of
       None \<Rightarrow> (Inl NoActiveRun, db)
     | Some run \<Rightarrow>
         if status run \<noteq> Active then (Inl RunNotActive, db)
         else
           (let db1 = updateRunState db (run_id run) (lockTurn actionText)
            in case resolve run actionText db1 of
                 (Inl err, db2) \<Rightarrow>
                   (Inl (Thrown err), updateRunState db2 (run_id run) restoreActive)
               | (Inr result, db2) \<Rightarrow>
                   (case persist run result db2 of
                      (Inl err, db3) \<Rightarrow>
                        (Inl (Thrown err), updateRunState db3 (run_id run) restoreActive)
                    | (Inr result', db3) \<Rightarrow>
                        (let db4 = updateRunState db3 (run_id run) (closeTurn result')
                         in case logTurn run result' db4 of
                              (Inl err, db5) \<Rightarrow>
                                (Inl (Thrown err), updateRunState db5 (run_id run) restoreActive)
                            | (Inr u, db5) \<Rightarrow> (Inr result', db5)))))"

text \<open>The error with which the body of the \<open>try\<close> block throws, when it throws, and the
  database it leaves to the \<open>catch\<close> block.\<close>

definition turnThrows ::
  "(run_row \<Rightarrow> string \<Rightarrow> 'd database \<Rightarrow> ('e + 'r turn_result) \<times> 'd database)
   \<Rightarrow> (run_row \<Rightarrow> 'r turn_result \<Rightarrow> 'd database \<Rightarrow> ('e + 'r turn_result) \<times> 'd database)
   \<Rightarrow> (run_row \<Rightarrow> 'r turn_result \<Rightarrow> 'd database \<Rightarrow> ('e + unit) \<times> 'd database)
   \<Rightarrow> run_row \<Rightarrow> string \<Rightarrow> 'd database \<Rightarrow> ('e \<times> 'd database) option" where
  "turnThrows resolve persist logTurn run actionText db1 =
    (case resolve run actionText db1 of
       (Inl err, db2) \<Rightarrow> Some (err, db2)
     | (Inr result, db2) \<Rightarrow>
         (case persist run result db2 of
            (Inl err, db3) \<Rightarrow> Some (err, db3)
          | (Inr result', db3) \<Rightarrow>
              (case logTurn run result' (updateRunState db3 (run_id run) (closeTurn result')) of
                 (Inl err, db5) \<Rightarrow> Some (err, db5)
               | (Inr u, db5) \<Rightarrow> None)))"

section \<open>The action processor: \<open>processSkillCheck\<close>\<close>

text \<open>The buffs of \<open>run.run_stats\<close> that skill checks read.\<close>

record run_stats =
  torch_lit :: bool
  fungus_lit :: bool

definition getPerceptionPerkBonuses :: "run_stats \<Rightarrow> perk_bonus list" where
  "getPerceptionPerkBonuses runStats =
    (if torch_lit runStats then [\<lparr>perk = ''Torch'', effect = Some 3\<rparr>] else [])
    @ (if fungus_lit runStats then [\<lparr>perk = ''Glowing Fungus'', effect = Some 1\<rparr>] else [])"

text \<open>An entry of the list that \<open>distributeXp\<close> returns: a level-up entry has the two
  levels and no \<open>leveled_up\<close> field, the other kind has \<open>leveled_up: false\<close>.\<close>

record xp_entry =
  xp_skill :: string
  xp_gained :: int
  leveled_up :: "bool option"
  old_level :: "int option"
  new_level :: "int option"

text \<open>\<open>distributeXp\<close> (combat.js) on the skill table of the player. A negative total xp
  makes \<open>Math.sqrt\<close> return \<open>NaN\<close>, which compares false: no level-up.\<close>

definition distributeXp ::
  "skill_table \<Rightarrow> string \<Rightarrow> int \<Rightarrow> outcome \<Rightarrow> xp_entry list \<times> skill_table" where
  "distributeXp tbl sname baseXp outc =
    (let xpMultiplier = (if outc = CriticalSuccess then 2
                         else if outc = Failure then 0.5
                         else if outc = CriticalFailure then 0.25
                         else (1 :: real));
         gain = max 1 (round (of_int baseXp * xpMultiplier))
     in case tbl sname of
          None \<Rightarrow> ([], tbl)
        | Some skill \<Rightarrow>
            (let oldLevel = level skill;
                 tbl1 = tbl(sname \<mapsto> skill\<lparr>xp := xp skill + gain\<rparr>);
                 newXp = xp skill + gain;
                 newLevel = min 100 (\<lfloor>sqrt (of_int newXp / 10)\<rfloor> + 1)
             in if 0 \<le> newXp \<and> newLevel > oldLevel then
                  ([\<lparr>xp_skill = sname, xp_gained = gain, leveled_up = None,
                     old_level = Some oldLevel, new_level = Some newLevel\<rparr>],
                   tbl1(sname \<mapsto> skill\<lparr>xp := xp skill + gain, level := newLevel,
                          true_level := true_level skill + (newLevel - oldLevel)\<rparr>))
                else
                  ([\<lparr>xp_skill = sname, xp_gained = gain, leveled_up = Some False,
                     old_level = None, new_level = None\<rparr>],
                   tbl1)))"

text \<open>The fields of the \<open>result\<close> object of a turn that \<open>processSkillCheck\<close> and
  \<open>processChestLoot\<close> write.\<close>

record action_result =
  checks :: "(string \<times> dice_result) list"
  diceResults :: "dice_result list"
  lootDrops :: "drop list"
  goldGained :: int
  xpGained :: "string \<rightharpoonup> int"
  levelUps :: "xp_entry list"
  hpChange :: int
  updatedPlayerHp :: int
  noLockpick :: bool
  lockpickConsumed :: bool
  noChest :: bool
  chestLocked :: bool
  chestAlreadyLooted :: bool
  chestLooted :: bool

text \<open>Everything a skill check can change: the inventory and skill tables of the player,
  the floor map (the current room is the room at an index of it), the enemy objects, and
  the result object.\<close>

record turn_state =
  inventory :: "inventory_row list"
  player_skills :: skill_table
  floorMap :: floor_map
  enemy_objects :: enemy_store
  result :: action_result

text \<open>What a skill check reads and does not change, and its draws: \<open>dc_u\<close> for
  \<open>randomDC\<close>, \<open>d20_u\<close> for the d20, \<open>chest_rnd\<close> and \<open>chest_gold_u\<close> for the loot and
  gold of a chest.\<close>

record skill_check_env =
  intent_skill :: "string option"
  env_run_stats :: run_stats
  env_room_state :: room_state
  env_baseStats :: "(base_stat \<rightharpoonup> int) option"
  env_skills :: "(string \<rightharpoonup> int) option"
  current_index :: nat
  dc_min :: int
  dc_max :: int
  dungeon_id :: int
  env_lootRules :: "source_type \<Rightarrow> int \<Rightarrow> loot_rule list"
  dc_u :: real
  d20_u :: real
  chest_rnd :: "nat \<Rightarrow> real"
  chest_gold_u :: real

text \<open>\<open>processChestLoot\<close> on the result object and the current room.\<close>

definition processChestLoot ::
  "skill_check_env \<Rightarrow> action_result \<Rightarrow> room \<Rightarrow> action_result \<times> room" where
  "processChestLoot env res currentRoom =
    (case chest currentRoom of
       None \<Rightarrow> (res\<lparr>noChest := True\<rparr>, currentRoom)
     | Some c \<Rightarrow>
         if is_locked c then (res\<lparr>chestLocked := True\<rparr>, currentRoom)
         else if is_looted c then (res\<lparr>chestAlreadyLooted := True\<rparr>, currentRoom)
         else
           (res\<lparr>chestLooted := True,
                lootDrops := lootDrops res
                   @ resolveLoot (env_lootRules env) Chest (dungeon_id env)
                       (empty_context\<lparr>perceptionLevel := Some 1\<rparr>) (chest_rnd env),
                goldGained := goldGained res + rollGoldDrop 15 40 (chest_gold_u env)\<rparr>,
            currentRoom\<lparr>chest := Some (c\<lparr>is_opened := True, is_looted := True\<rparr>)\<rparr>))"

datatype lockpick_target = CurrentRoomLock | ChestLock | AdjacentRoom int

text \<open>The loop over the connections of the current room that looks for a closed locked
  room with a lock: its lock DC and number.\<close>

fun findAdjacentLock :: "int list \<Rightarrow> floor_map \<Rightarrow> (int \<times> int) option" where
  "findAdjacentLock [] fm = None"
| "findAdjacentLock (connNum # rest) fm =
    (case getCurrentRoom fm connNum of
       None \<Rightarrow> findAdjacentLock rest fm
     | Some connRoom \<Rightarrow>
         (case lock connRoom of
            None \<Rightarrow> findAdjacentLock rest fm
          | Some l \<Rightarrow>
              if rtype connRoom = Some Locked \<and> \<not> is_accessible connRoom
              then Some (lock_dc l, connNum)
              else findAdjacentLock rest fm))"

text \<open>The first part of \<open>processSkillCheck\<close>: the DC and what is being picked. A locked
  chest without a lock DC gives the DC \<open>null\<close>, which compares as 0.\<close>

definition chooseDC :: "skill_check_env \<Rightarrow> string \<Rightarrow> room \<Rightarrow> floor_map
    \<Rightarrow> int \<times> lockpick_target option" where
  "chooseDC env sname currentRoom fm =
    (let generic = randomDC (dc_min env) (dc_max env) (dc_u env);
         roomLock = (if sname = ''lockpicking'' \<and> rtype currentRoom = Some Locked
                     then lock currentRoom else None);
         lockedChest = (if sname = ''lockpicking''
                        then (case chest currentRoom of
                                None \<Rightarrow> None
                              | Some c \<Rightarrow> if is_locked c then Some c else None)
                        else None)
     in case roomLock of
          Some l \<Rightarrow> (lock_dc l, Some CurrentRoomLock)
        | None \<Rightarrow>
            (case lockedChest of
               Some c \<Rightarrow> ((case chest_lock_dc c of None \<Rightarrow> 0 | Some d \<Rightarrow> d), Some ChestLock)
             | None \<Rightarrow>
                 if sname = ''lockpicking'' then
                   (case findAdjacentLock (connections currentRoom) fm of
                      Some (d, n) \<Rightarrow> ((if d = 0 then generic else d), Some (AdjacentRoom n))
                    | None \<Rightarrow> (generic, None))
                 else
                   (case trap currentRoom of
                      None \<Rightarrow> (generic, None)
                    | Some t \<Rightarrow>
                        if \<not> is_disarmed t \<and> sname = ''perception''
                        then (trap_dc t, None) else (generic, None))))"

text \<open>The loop that adds the entries of \<open>distributeXp\<close> to the result object.\<close>

fun addXp :: "xp_entry list \<Rightarrow> action_result \<Rightarrow> action_result" where
  "addXp [] res = res"
| "addXp (xr # rest) res =
    (let res1 = res\<lparr>xpGained := (xpGained res)(xp_skill xr \<mapsto>
                       orElse (xpGained res (xp_skill xr)) 0 + xp_gained xr)\<rparr>;
         res2 = (if leveled_up xr \<noteq> Some False \<and> orElse (new_level xr) 0 \<noteq> 0
                 then res1\<lparr>levelUps := levelUps res1 @ [xr]\<rparr> else res1)
     in addXp rest res2)"

text \<open>A successful stealth check: every living enemy of the room state becomes idle.\<close>

definition calmEnemies :: "nat list \<Rightarrow> enemy_store \<Rightarrow> enemy_store" where
  "calmEnemies refs store =
    fold (\<lambda>a s. if \<not> is_dead (s a) then s(a := (s a)\<lparr>awareness := ''idle''\<rparr>) else s) refs store"

text \<open>The second part of \<open>processSkillCheck\<close>, from the call of \<open>skillCheck\<close> on, block
  by block. First the check that is rolled for a skill and a DC.\<close>

definition rolledCheck :: "skill_check_env \<Rightarrow> string \<Rightarrow> int \<Rightarrow> dice_result" where
  "rolledCheck env sname dcv =
    skillCheck
      \<lparr>skillName = sname, dc = dcv, baseStats = env_baseStats env,
       skills = env_skills env, critRange = 20,
       perkBonuses = (if sname = ''perception''
                      then getPerceptionPerkBonuses (env_run_stats env) else []),
       advantage = False, disadvantage = False, dcSource = ''room_feature'',
       dcOriginId = None\<rparr> (d20_u env) 0"

text \<open>The effect of a passed lockpicking check: the lock of the current room, the chest
  (which is then looted at once), or the adjacent room.\<close>

definition lockpickEffect ::
  "skill_check_env \<Rightarrow> lockpick_target option \<Rightarrow> turn_state \<Rightarrow> turn_state" where
  "lockpickEffect env lockpickTarget st =
    (let ci = current_index env;
         currentRoom = floorMap st ! ci
     in if lockpickTarget = Some CurrentRoomLock \<and> lock currentRoom \<noteq> None then
          st\<lparr>floorMap := unlockRoom (floorMap st) (room_number currentRoom)\<rparr>
        else if lockpickTarget = Some ChestLock
                \<and> (case chest currentRoom of None \<Rightarrow> False | Some c \<Rightarrow> is_locked c) then
          (let opened = currentRoom\<lparr>chest :=
                          map_option (\<lambda>c. c\<lparr>is_locked := False\<rparr>) (chest currentRoom)\<rparr>;
               looted = processChestLoot env (result st) opened
           in st\<lparr>floorMap := (floorMap st)[ci := snd looted], result := fst looted\<rparr>)
        else (case lockpickTarget of
                Some (AdjacentRoom n) \<Rightarrow> st\<lparr>floorMap := unlockRoom (floorMap st) n\<rparr>
              | _ \<Rightarrow> st))"

text \<open>The trap of the current room after the check: a passed perception check disarms it,
  any failed check triggers it.\<close>

definition trapHandling :: "skill_check_env \<Rightarrow> string \<Rightarrow> dice_result \<Rightarrow> turn_state \<Rightarrow> turn_state" where
  "trapHandling env sname check st =
    (let ci = current_index env;
         currentRoom = floorMap st ! ci
     in case trap currentRoom of
          None \<Rightarrow> st
        | Some t \<Rightarrow>
            if is_disarmed t then st
            else if sname = ''perception'' \<and> passed check then
              st\<lparr>floorMap := (floorMap st)
                    [ci := currentRoom\<lparr>trap := Some (t\<lparr>is_disarmed := True\<rparr>)\<rparr>]\<rparr>
            else if \<not> passed check then
              st\<lparr>floorMap := (floorMap st)
                    [ci := currentRoom\<lparr>trap := Some (t\<lparr>is_triggered := True\<rparr>)\<rparr>],
                 result := (result st)
                    \<lparr>hpChange := hpChange (result st) - trap_damage t,
                     updatedPlayerHp := updatedPlayerHp (result st) - trap_damage t\<rparr>\<rparr>
            else st)"

text \<open>The xp of the check: \<open>distributeXp\<close> with base 10, added to the result object.\<close>

definition awardXp :: "string \<Rightarrow> dice_result \<Rightarrow> turn_state \<Rightarrow> turn_state" where
  "awardXp sname check st =
    (let xpResults = distributeXp (player_skills st) sname 10 (outcome check)
     in st\<lparr>player_skills := snd xpResults, result := addXp (fst xpResults) (result st)\<rparr>)"

text \<open>The blocks in the order of the source: the check is rolled and recorded, its
  effects are applied by skill, the trap is handled, xp is distributed.\<close>

definition rollSkillCheck ::
  "skill_check_env \<Rightarrow> string \<Rightarrow> int \<Rightarrow> lockpick_target option \<Rightarrow> turn_state \<Rightarrow> turn_state" where
  "rollSkillCheck env sname dcv lockpickTarget st =
    (let check = rolledCheck env sname dcv;
         st1 = st\<lparr>result := (result st)\<lparr>checks := checks (result st) @ [(sname, check)],
                      diceResults := diceResults (result st) @ [check]\<rparr>\<rparr>;
         st2 = (if passed check \<and> sname = ''lockpicking''
                then lockpickEffect env lockpickTarget st1 else st1);
         st3 = (if passed check \<and> sname = ''stealth''
                then st2\<lparr>enemy_objects :=
                        calmEnemies (enemy_refs (env_room_state env)) (enemy_objects st2)\<rparr>
                else st2)
     in awardXp sname check (trapHandling env sname check st3))"

text \<open>The row that the lockpick gate looks for in the inventory.\<close>

definition isPick :: "inventory_row \<Rightarrow> bool" where
  "isPick i \<longleftrightarrow> inv_item_name i = ''Thieves' Pick'' \<and> inv_quantity i > 0"

text \<open>\<open>processSkillCheck\<close>: the DC, the lockpick gate (without a pick the function
  returns at once; with one, the pick is removed), then the check.\<close>

definition processSkillCheck :: "skill_check_env \<Rightarrow> turn_state \<Rightarrow> turn_state" where
  "processSkillCheck env st =
    (let skillName = (case intent_skill env of
                        None \<Rightarrow> ''perception''
                      | Some s \<Rightarrow> if s = [] then ''perception'' else s);
         currentRoom = floorMap st ! current_index env;
         (dcv, lockpickTarget) = chooseDC env skillName currentRoom (floorMap st)
     in if skillName = ''lockpicking'' \<and> lockpickTarget \<noteq> None then
          (case find isPick (inventory st) of
             None \<Rightarrow> st\<lparr>result := (result st)\<lparr>noLockpick := True\<rparr>\<rparr>
           | Some pick \<Rightarrow>
               rollSkillCheck env skillName dcv lockpickTarget
                 (st\<lparr>inventory := removeItem (inventory st) (inv_id pick) 1,
                     result := (result st)\<lparr>lockpickConsumed := True\<rparr>\<rparr>))
        else rollSkillCheck env skillName dcv lockpickTarget st)"

text \<open>The number of Thieves' Picks in an inventory.\<close>

definition pickTotal :: "inventory_row list \<Rightarrow> int" where
  "pickTotal rows =
    sum_list (map inv_quantity (filter (\<lambda>i. inv_item_name i = ''Thieves' Pick'') rows))"

text \<open>A database with one active run, and a turn whose persistence step throws after
  the resolution has written to the database.\<close>

definition demo_run :: run_row where
  "demo_run = \<lparr>run_id = 1, player_id = 7, status = Active, pending_action_text = None,
     current_floor = 1, current_room = 2\<rparr>"

definition demo_db :: "nat database" where
  "demo_db = \<lparr>active_runs = [demo_run], other_tables = 0\<rparr>"

definition demo_resolve :: "run_row \<Rightarrow> string \<Rightarrow> nat database
    \<Rightarrow> (string + unit turn_result) \<times> nat database" where
  "demo_resolve run actionText db =
    (Inr \<lparr>runDied = False, runComplete = False, turn_payload = ()\<rparr>,
     db\<lparr>other_tables := Suc (other_tables db)\<rparr>)"

definition demo_persist :: "run_row \<Rightarrow> unit turn_result \<Rightarrow> nat database
    \<Rightarrow> (string + unit turn_result) \<times> nat database" where
  "demo_persist run res db = (Inl ''SQLITE_BUSY'', db)"

definition demo_log :: "run_row \<Rightarrow> unit turn_result \<Rightarrow> nat database
    \<Rightarrow> (string + unit) \<times> nat database" where
  "demo_log run res db = (Inr (), db)"

text \<open>A player in room 2 of a small floor, next to the locked room 3, holding two
  Thieves' Picks; the d20 comes up 1.\<close>

definition demo_env :: skill_check_env where
  "demo_env = \<lparr>intent_skill = Some ''lockpicking'',
     env_run_stats = \<lparr>torch_lit = False, fungus_lit = False\<rparr>,
     env_room_state = \<lparr>is_combat_active = False, round_number = 0, enemy_refs = []\<rparr>,
     env_baseStats = Some [Dexterity \<mapsto> 12], env_skills = Some [''lockpicking'' \<mapsto> 1],
     current_index = 1, dc_min = 8, dc_max = 14, dungeon_id = 1, env_lootRules = no_loot,
     dc_u = 1/2, d20_u = 0, chest_rnd = zero_draws, chest_gold_u = 0\<rparr>"

definition demo_result :: action_result where
  "demo_result = \<lparr>checks = [], diceResults = [], lootDrops = [], goldGained = 0,
     xpGained = Map.empty, levelUps = [], hpChange = 0, updatedPlayerHp = 30,
     noLockpick = False, lockpickConsumed = False, noChest = False, chestLocked = False,
     chestAlreadyLooted = False, chestLooted = False\<rparr>"

definition demo_inventory :: "inventory_row list" where
  "demo_inventory =
    [\<lparr>inv_id = 11, inv_item_id = 40, inv_item_name = ''Thieves' Pick'', inv_quantity = 2\<rparr>,
     \<lparr>inv_id = 12, inv_item_id = 41, inv_item_name = ''Torch'', inv_quantity = 1\<rparr>]"

definition demo_state :: turn_state where
  "demo_state = \<lparr>inventory = demo_inventory,
     player_skills = [''lockpicking'' \<mapsto> \<lparr>level = 1, xp = 0, true_level = 1\<rparr>],
     floorMap = demo_map, enemy_objects = demo_store, result = demo_result\<rparr>"

section \<open>Properties of dice.js\<close>

lemma foldl_add_sum_list:
  "foldl (\<lambda>s q. s + f q) a xs = a + sum_list (map f xs)"
  by (induction xs arbitrary: a) (simp_all add: add.assoc)

lemma skillCheck_unfold:
  obtains b d where
    "b = (if advantage p \<and> \<not> disadvantage p then max (roll 20 u1) (roll 20 u2)
          else if disadvantage p \<and> \<not> advantage p then min (roll 20 u1) (roll 20 u2)
          else roll 20 u1)"
    "base_roll (skillCheck p u1 u2) = b"
    "final_total (skillCheck p u1 u2) = b + stat_modifier (skillCheck p u1 u2)
        + skill_level (skillCheck p u1 u2) div 10
        + sum_list (map (\<lambda>q. orElse (effect q) 0) (perkBonuses p))"
    "stat_modifier (skillCheck p u1 u2) = statModifier (stat_value (skillCheck p u1 u2))"
    "perk_bonuses (skillCheck p u1 u2) = perkBonuses p"
    "outcome (skillCheck p u1 u2) =
       (if b \<ge> critRange p then CriticalSuccess
        else if b = 1 then CriticalFailure
        else if final_total (skillCheck p u1 u2) \<ge> dc p then Success
        else if final_total (skillCheck p u1 u2) \<ge> dc p - 2 then Partial
        else Failure)"
    "passed (skillCheck p u1 u2) \<longleftrightarrow>
       outcome (skillCheck p u1 u2) = Success \<or> outcome (skillCheck p u1 u2) = CriticalSuccess
       \<or> outcome (skillCheck p u1 u2) = Partial"
proof -
  obtain b d where sel:
    "(if advantage p \<and> \<not> disadvantage p then
              (let r1 = roll 20 u1; r2 = roll 20 u2; b = max r1 r2
               in (b, \<lparr>roll_type = Advantage, rolls = [r1, r2], used = b\<rparr>))
            else if disadvantage p \<and> \<not> advantage p then
              (let r1 = roll 20 u1; r2 = roll 20 u2; b = min r1 r2
               in (b, \<lparr>roll_type = Disadvantage, rolls = [r1, r2], used = b\<rparr>))
            else
              (let b = roll 20 u1
               in (b, \<lparr>roll_type = Normal, rolls = [b], used = b\<rparr>))) = (b, d)"
    by (meson surj_pair)
  have b: "b = (if advantage p \<and> \<not> disadvantage p then max (roll 20 u1) (roll 20 u2)
          else if disadvantage p \<and> \<not> advantage p then min (roll 20 u1) (roll 20 u2)
          else roll 20 u1)"
    using sel by (auto simp add: Let_def split: if_splits)
  note defs = skillCheck_def sel
  have 1: "base_roll (skillCheck p u1 u2) = b"
    unfolding defs by (simp add: Let_def)
  have 2: "final_total (skillCheck p u1 u2) = b + stat_modifier (skillCheck p u1 u2)
        + skill_level (skillCheck p u1 u2) div 10
        + sum_list (map (\<lambda>q. orElse (effect q) 0) (perkBonuses p))"
    unfolding defs by (simp add: Let_def foldl_add_sum_list)
  have 3: "stat_modifier (skillCheck p u1 u2) = statModifier (stat_value (skillCheck p u1 u2))"
    unfolding defs by (simp add: Let_def)
  have 4: "perk_bonuses (skillCheck p u1 u2) = perkBonuses p"
    unfolding defs by (simp add: Let_def)
  have 5: "outcome (skillCheck p u1 u2) =
       (if b \<ge> critRange p then CriticalSuccess
        else if b = 1 then CriticalFailure
        else if final_total (skillCheck p u1 u2) \<ge> dc p then Success
        else if final_total (skillCheck p u1 u2) \<ge> dc p - 2 then Partial
        else Failure)"
    unfolding defs by (simp add: Let_def)
  have 6: "passed (skillCheck p u1 u2) \<longleftrightarrow>
       outcome (skillCheck p u1 u2) = Success \<or> outcome (skillCheck p u1 u2) = CriticalSuccess
       \<or> outcome (skillCheck p u1 u2) = Partial"
    unfolding defs by (simp add: Let_def)
  from that [OF b 1 2 3 4 5 6] show thesis .
qed

text \<open>
  C1. Whatever the parameters and the dice, the result of \<open>skillCheck\<close> satisfies
  \<open>final_total = base_roll + stat_modifier + floor(skill_level / 10) + sum of the perk
  effects\<close> (a perk without an effect counts 0), where the base roll is the die rolled
  (the higher of two under advantage, the lower under disadvantage), the modifier is
  \<open>statModifier\<close> of the stat value and the perks are those passed in. The outcome is
  classified in the fixed priority order: base roll at or above the crit range is a
  critical success; otherwise a base roll of 1 is a critical failure; otherwise a total
  at or above the DC is a success; otherwise a total at or above DC - 2 is a partial
  success; otherwise a failure. \<open>passed\<close> holds exactly for success, critical success
  and partial.
\<close>

theorem skillCheck_total_and_outcome:
  fixes p :: check_params and u1 u2 :: real
  defines "r \<equiv> skillCheck p u1 u2"
  shows "final_total r = base_roll r + stat_modifier r + skill_level r div 10
            + sum_list (map (\<lambda>q. orElse (effect q) 0) (perk_bonuses r))
       \<and> base_roll r = (if advantage p \<and> \<not> disadvantage p then max (roll 20 u1) (roll 20 u2)
                        else if disadvantage p \<and> \<not> advantage p then min (roll 20 u1) (roll 20 u2)
                        else roll 20 u1)
       \<and> stat_modifier r = statModifier (stat_value r)
       \<and> perk_bonuses r = perkBonuses p
       \<and> outcome r = (if base_roll r \<ge> critRange p then CriticalSuccess
                      else if base_roll r = 1 then CriticalFailure
                      else if final_total r \<ge> dc p then Success
                      else if final_total r \<ge> dc p - 2 then Partial
                      else Failure)
       \<and> (passed r \<longleftrightarrow> outcome r = Success \<or> outcome r = CriticalSuccess \<or> outcome r = Partial)"
proof -
  obtain b where f:
    "b = (if advantage p \<and> \<not> disadvantage p then max (roll 20 u1) (roll 20 u2)
          else if disadvantage p \<and> \<not> advantage p then min (roll 20 u1) (roll 20 u2)
          else roll 20 u1)"
    "base_roll r = b"
    "final_total r = b + stat_modifier r + skill_level r div 10
        + sum_list (map (\<lambda>q. orElse (effect q) 0) (perkBonuses p))"
    "stat_modifier r = statModifier (stat_value r)"
    "perk_bonuses r = perkBonuses p"
    "outcome r =
       (if b \<ge> critRange p then CriticalSuccess
        else if b = 1 then CriticalFailure
        else if final_total r \<ge> dc p then Success
        else if final_total r \<ge> dc p - 2 then Partial
        else Failure)"
    "passed r \<longleftrightarrow> outcome r = Success \<or> outcome r = CriticalSuccess \<or> outcome r = Partial"
    unfolding r_def by (rule skillCheck_unfold [of p u1 u2]) blast
  show ?thesis
    unfolding f(2) f(5) using f(1,3,4,6,7) by blast
qed

lemma demo_check_fields:
  "base_roll (skillCheck demo_params (7/10) 0) = 15"
  "stat_modifier (skillCheck demo_params (7/10) 0) = 2"
  "skill_level (skillCheck demo_params (7/10) 0) = 23"
  "perk_bonuses (skillCheck demo_params (7/10) 0) = []"
  by (simp_all add: skillCheck_def demo_params_def Let_def roll_def SKILL_STAT_MAP_def
        orElse_def statModifier_def)

theorem skillCheck_total_and_outcome_witness:
  "final_total (skillCheck demo_params (7/10) 0) = 19
   \<and> outcome (skillCheck demo_params (7/10) 0) = Success
   \<and> passed (skillCheck demo_params (7/10) 0)"
  using skillCheck_total_and_outcome [of demo_params "7/10" 0]
  by (simp add: demo_check_fields) (simp add: demo_params_def)

text \<open>
  C4. For every call of \<open>rollDamage\<close> (with \<open>Math.random()\<close> giving \<open>0 \<le> u < 1\<close>)
  the result is computed in this order: the raw damage is
  \<open>round((baseDamage + weaponBonus) * v)\<close> for a variance \<open>v\<close> in \<open>[0.8, 1.2]\<close>,
  doubled on a critical hit; then the resistance multiplier is applied to the raw damage
  (and the product rounded); then the target's armor is subtracted, with a floor of 1:
  the mitigated damage is never below 1.
\<close>

theorem rollDamage_order:
  fixes baseDamage weaponBonus targetArmor resistanceMult u :: real and isCrit :: bool
  assumes "0 \<le> u" and "u < 1"
  defines "r \<equiv> rollDamage baseDamage weaponBonus isCrit targetArmor resistanceMult u"
  shows "\<exists>v. 0.8 \<le> v \<and> v \<le> 1.2
           \<and> rawDamage r = (if isCrit then 2 * round ((baseDamage + weaponBonus) * v)
                             else round ((baseDamage + weaponBonus) * v))
           \<and> mitigatedDamage r
               = max 1 (of_int (round (of_int (rawDamage r) * resistanceMult)) - targetArmor)
           \<and> mitigatedDamage r \<ge> 1"
proof -
  let ?v = "0.8 + u * 0.4"
  have "0.8 \<le> ?v" "?v \<le> 1.2" using assms(1,2) by simp_all
  moreover have "rawDamage r = (if isCrit then 2 * round ((baseDamage + weaponBonus) * ?v)
                             else round ((baseDamage + weaponBonus) * ?v))"
    by (simp add: r_def rollDamage_def Let_def)
  moreover have "mitigatedDamage r
               = max 1 (of_int (round (of_int (rawDamage r) * resistanceMult)) - targetArmor)"
    by (simp add: r_def rollDamage_def Let_def)
  moreover have "mitigatedDamage r \<ge> 1"
    by (simp add: r_def rollDamage_def Let_def)
  ultimately show ?thesis by blast
qed

lemma demo_damage:
  "rawDamage (rollDamage 10 2 True 3 (1/2) (1/2)) = 24"
  "mitigatedDamage (rollDamage 10 2 True 3 (1/2) (1/2)) = 9"
  by (simp_all add: rollDamage_def Let_def round_def)

theorem rollDamage_order_witness:
  "(0::real) \<le> 1/2 \<and> (1/2::real) < 1
   \<and> (\<exists>v::real. 0.8 \<le> v \<and> v \<le> 1.2 \<and> 24 = 2 * round (12 * v))
   \<and> mitigatedDamage (rollDamage 10 2 True 3 (1/2) (1/2)) = 9"
  using rollDamage_order [of "1/2" 10 2 True 3 "1/2"]
  by (simp add: demo_damage)

section \<open>Properties of loot.js\<close>

lemma weightedScan_mem: "weightedScan pool r = Some x \<Longrightarrow> x \<in> snd ` set pool"
  by (induction pool r rule: weightedScan.induct) (auto split: if_splits)

lemma weightedRandom_mem: "weightedRandom pool u = Some x \<Longrightarrow> x \<in> snd ` set pool"
  unfolding weightedRandom_def Let_def
  by (auto split: if_splits option.splits dest: weightedScan_mem)

lemma guaranteedLoop_eq:
  "guaranteedLoop rs ctx drops
     = drops @ map (\<lambda>r. makeDrop r (requires_perception r)) (filter (fires ctx) rs)"
  by (induction rs arbitrary: drops) (auto simp: fires_def)

lemma weightedRound_extends:
  "\<exists>extra. weightedRound e u ds = ds @ extra \<and> length extra \<le> 1
     \<and> (\<forall>d \<in> set extra. drop_item_id d \<notin> drop_item_id ` set ds
            \<and> (\<exists>r \<in> set e. d = makeDrop r (requires_perception r)))"
proof (cases "weightedRandom (map (\<lambda>r. (of_int (base_weight r), r)) e) u")
  case None
  then show ?thesis by (simp add: weightedRound_def)
next
  case (Some sel)
  then have "sel \<in> set e" by (auto dest!: weightedRandom_mem)
  then show ?thesis using Some
    by (auto simp: weightedRound_def Let_def makeDrop_def)
qed

lemma fresh_ids_disjoint:
  assumes "\<forall>d \<in> set ys. f d \<notin> f ` set xs"
  shows "set (map f xs) \<inter> set (map f ys) = {}"
proof (rule ccontr)
  assume "set (map f xs) \<inter> set (map f ys) \<noteq> {}"
  then obtain v where "v \<in> f ` set xs" "v \<in> f ` set ys" by auto
  then obtain d where "d \<in> set ys" "v = f d" by auto
  with \<open>v \<in> f ` set xs\<close> assms show False by simp
qed

lemma two_rounds_extend:
  "\<exists>extra. weightedRound e u2 (weightedRound e u1 ds) = ds @ extra \<and> length extra \<le> 2
     \<and> distinct (map drop_item_id extra)
     \<and> (\<forall>d \<in> set extra. drop_item_id d \<notin> drop_item_id ` set ds
            \<and> (\<exists>r \<in> set e. d = makeDrop r (requires_perception r)))"
proof -
  obtain x1 where 1: "weightedRound e u1 ds = ds @ x1" "length x1 \<le> 1"
     "\<forall>d \<in> set x1. drop_item_id d \<notin> drop_item_id ` set ds
            \<and> (\<exists>r \<in> set e. d = makeDrop r (requires_perception r))"
    using weightedRound_extends [of e u1 ds] by blast
  obtain x2 where 2: "weightedRound e u2 (ds @ x1) = (ds @ x1) @ x2" "length x2 \<le> 1"
     "\<forall>d \<in> set x2. drop_item_id d \<notin> drop_item_id ` set (ds @ x1)
            \<and> (\<exists>r \<in> set e. d = makeDrop r (requires_perception r))"
    using weightedRound_extends [of e u2 "ds @ x1"] by blast
  have d1: "distinct (map drop_item_id x1)" using 1(2) by (cases x1) auto
  have d2: "distinct (map drop_item_id x2)" using 2(2) by (cases x2) auto
  have "\<forall>d \<in> set x2. drop_item_id d \<notin> drop_item_id ` set x1"
    using 2(3) by auto
  then have "set (map drop_item_id x1) \<inter> set (map drop_item_id x2) = {}"
    by (rule fresh_ids_disjoint)
  then have "distinct (map drop_item_id (x1 @ x2))"
    using d1 d2 by simp
  moreover have "length (x1 @ x2) \<le> 2" using 1(2) 2(2) by simp
  moreover have "\<forall>d \<in> set (x1 @ x2). drop_item_id d \<notin> drop_item_id ` set ds
            \<and> (\<exists>r \<in> set e. d = makeDrop r (requires_perception r))"
    using 1(3) 2(3) by auto
  moreover have "weightedRound e u2 (weightedRound e u1 ds) = ds @ (x1 @ x2)"
    using 1(1) 2(1) by simp
  ultimately show ?thesis by blast
qed

lemma upt_two: "[0..<2] = [0, Suc 0]"
  by (simp add: numeral_2_eq_2)

lemma eligible_eq:
  "(\<lambda>r. if \<not> checkCondition r ctx then False
        else if requires_perception r \<and> \<not> checkPerception r ctx then False
        else True) = fires ctx"
  by (auto simp: fires_def fun_eq_iff)

lemma resolveLoot_alt:
  "resolveLoot lootRules sourceType sourceId ctx rnd =
    (let rules = lootRules sourceType sourceId;
         g = guaranteedLoop (filter (\<lambda>r. drop_type r = Guaranteed) rules) ctx [];
         e = filter (fires ctx) (filter (\<lambda>r. drop_type r = Weighted) rules)
     in if rules = [] \<or> e = [] then g
        else if sourceType = Chest \<or> sourceType = BossSource
             then weightedRound e (rnd (Suc 0)) (weightedRound e (rnd 0) g)
             else weightedRound e (rnd 0) g)"
  unfolding resolveLoot_def eligible_eq Let_def
  by (simp add: upt_two)

text \<open>
  C6. For every call of \<open>resolveLoot\<close>, every rule of the source with drop type
  \<open>guaranteed\<close> whose condition predicate passes and whose perception gate is met (the rule
  requires no perception, or the perception level is at least the rule's perception DC
  minus 5, where the code reads a missing or zero level as 1 and a missing or zero DC as
  10) contributes its drop to the returned list: its item is always returned.
\<close>

theorem resolveLoot_guaranteed_fires:
  assumes "rule \<in> set (lootRules sourceType sourceId)"
    and "drop_type rule = Guaranteed"
    and "checkCondition rule ctx"
    and "\<not> requires_perception rule
         \<or> orElse (perceptionLevel ctx) 1 \<ge> orElse (perception_dc rule) 10 - 5"
  shows "makeDrop rule (requires_perception rule)
           \<in> set (resolveLoot lootRules sourceType sourceId ctx rnd)
       \<and> item_id rule \<in> drop_item_id ` set (resolveLoot lootRules sourceType sourceId ctx rnd)"
proof -
  let ?rules = "lootRules sourceType sourceId"
  let ?g = "filter (\<lambda>r. drop_type r = Guaranteed) ?rules"
  let ?drops = "guaranteedLoop ?g ctx []"
  have f: "fires ctx rule"
    using assms(3,4) by (auto simp: fires_def checkPerception_def Let_def)
  have "rule \<in> set ?g" using assms(1,2) by simp
  then have m: "makeDrop rule (requires_perception rule) \<in> set ?drops"
    using f by (auto simp: guaranteedLoop_eq)
  let ?e = "filter (fires ctx) (filter (\<lambda>r. drop_type r = Weighted) ?rules)"
  have "\<exists>extra. resolveLoot lootRules sourceType sourceId ctx rnd = ?drops @ extra"
    using two_rounds_extend [of ?e "rnd (Suc 0)" "rnd 0" ?drops]
      weightedRound_extends [of ?e "rnd 0" ?drops]
    unfolding resolveLoot_alt Let_def by auto
  then have "makeDrop rule (requires_perception rule)
           \<in> set (resolveLoot lootRules sourceType sourceId ctx rnd)"
    using m by auto
  moreover have "drop_item_id (makeDrop rule (requires_perception rule)) = item_id rule"
    by (simp add: makeDrop_def)
  ultimately show ?thesis by force
qed

text \<open>
  C7 (as amended). For every call of \<open>resolveLoot\<close> with source type \<open>chest\<close> or
  \<open>boss\<close>, the returned list is the guaranteed drops followed by at most 2 items drawn
  from the weighted rules; a drawn item is added only when no earlier drop of the call has
  its item identifier, so the drawn items are pairwise different and different from every
  guaranteed drop, and the whole list is free of duplicates whenever the guaranteed drops
  are.
\<close>

theorem resolveLoot_chest_boss:
  fixes lootRules :: "source_type \<Rightarrow> int \<Rightarrow> loot_rule list"
    and sourceType :: source_type and sourceId :: int
    and ctx :: loot_context and rnd :: "nat \<Rightarrow> real"
  assumes "sourceType = Chest \<or> sourceType = BossSource"
  defines "rules \<equiv> lootRules sourceType sourceId"
  defines "gdrops \<equiv> guaranteedLoop (filter (\<lambda>r. drop_type r = Guaranteed) rules) ctx []"
  defines "res \<equiv> resolveLoot lootRules sourceType sourceId ctx rnd"
  shows "\<exists>extra. res = gdrops @ extra \<and> length extra \<le> 2
           \<and> (\<forall>d \<in> set extra. \<exists>r \<in> set rules. drop_type r = Weighted
                   \<and> d = makeDrop r (requires_perception r))
           \<and> distinct (map drop_item_id extra)
           \<and> (\<forall>d \<in> set extra. drop_item_id d \<notin> drop_item_id ` set gdrops)
           \<and> (distinct (map drop_item_id gdrops) \<longrightarrow> distinct (map drop_item_id res))"
proof -
  let ?e = "filter (fires ctx) (filter (\<lambda>r. drop_type r = Weighted) rules)"
  have sub: "\<And>r. r \<in> set ?e \<Longrightarrow> r \<in> set rules \<and> drop_type r = Weighted" by auto
  have "\<exists>extra. res = gdrops @ extra \<and> length extra \<le> 2
     \<and> distinct (map drop_item_id extra)
     \<and> (\<forall>d \<in> set extra. drop_item_id d \<notin> drop_item_id ` set gdrops
            \<and> (\<exists>r \<in> set ?e. d = makeDrop r (requires_perception r)))"
  proof (cases "rules = [] \<or> ?e = []")
    case True
    then have "res = gdrops @ []"
      unfolding res_def gdrops_def resolveLoot_alt rules_def [symmetric] Let_def by auto
    then show ?thesis by (intro exI [of _ "[]"]) simp
  next
    case False
    then have "res = weightedRound ?e (rnd (Suc 0)) (weightedRound ?e (rnd 0) gdrops)"
      unfolding res_def gdrops_def resolveLoot_alt rules_def [symmetric] Let_def
      using assms(1) by auto
    then show ?thesis using two_rounds_extend [of ?e "rnd (Suc 0)" "rnd 0" gdrops] by simp
  qed
  then obtain extra where x: "res = gdrops @ extra" "length extra \<le> 2"
     "distinct (map drop_item_id extra)"
     "\<forall>d \<in> set extra. drop_item_id d \<notin> drop_item_id ` set gdrops
            \<and> (\<exists>r \<in> set ?e. d = makeDrop r (requires_perception r))"
    by blast
  have "\<forall>d \<in> set extra. \<exists>r \<in> set rules. drop_type r = Weighted
                   \<and> d = makeDrop r (requires_perception r)"
    using x(4) sub by blast
  moreover have "set (map drop_item_id gdrops) \<inter> set (map drop_item_id extra) = {}"
    using x(4) by (intro fresh_ids_disjoint) blast
  then have "distinct (map drop_item_id gdrops) \<longrightarrow> distinct (map drop_item_id res)"
    using x(1,3) by simp
  ultimately show ?thesis using x by blast
qed


lemma hidden_rule_fields:
  "drop_type hidden_rule = Guaranteed" "requires_perception hidden_rule"
  "perception_dc hidden_rule = Some 6" "item_id hidden_rule = 7"
  "checkCondition hidden_rule empty_context" "perceptionLevel empty_context = None"
  by (simp_all add: hidden_rule_def plain_rule_def checkCondition_def empty_context_def)

theorem resolveLoot_guaranteed_fires_witness:
  "hidden_rule \<in> set (hidden_table EnemyKill 1)
   \<and> drop_type hidden_rule = Guaranteed
   \<and> checkCondition hidden_rule empty_context
   \<and> orElse (perceptionLevel empty_context) 1 \<ge> orElse (perception_dc hidden_rule) 10 - 5
   \<and> 7 \<in> drop_item_id ` set (resolveLoot hidden_table EnemyKill 1 empty_context zero_draws)"
  using resolveLoot_guaranteed_fires
    [of hidden_rule hidden_table EnemyKill 1 empty_context zero_draws]
  by (simp add: hidden_rule_fields hidden_table_def orElse_def)

lemma twin_drops:
  "map drop_item_id (resolveLoot twin_table Chest 1 empty_context zero_draws) = [5, 5]"
  by (simp add: resolveLoot_def twin_table_def plain_rule_def checkCondition_def makeDrop_def
        Let_def)

text \<open>
  C7 as stated fails: two guaranteed rules of one chest for the same item both fire, and
  the returned list holds that item twice.
\<close>

theorem resolveLoot_no_duplicates_counterexample:
  "\<not> distinct (map drop_item_id (resolveLoot twin_table Chest 1 empty_context zero_draws))"
  by (simp add: twin_drops)

lemma chest_drops:
  "map drop_item_id (resolveLoot chest_table Chest 1 empty_context chest_draws) = [5, 6]"
  by (simp add: resolveLoot_def chest_table_def plain_rule_def checkCondition_def makeDrop_def
        Let_def upt_two weightedRound_def weightedRandom_def chest_draws_def)

theorem resolveLoot_chest_boss_witness:
  "(Chest = Chest \<or> Chest = BossSource)
   \<and> (\<exists>extra. resolveLoot chest_table Chest 1 empty_context chest_draws
          = guaranteedLoop (filter (\<lambda>r. drop_type r = Guaranteed) (chest_table Chest 1))
              empty_context [] @ extra
        \<and> length extra \<le> 2 \<and> distinct (map drop_item_id extra))"
  using resolveLoot_chest_boss [of Chest chest_table 1 empty_context chest_draws]
  by blast

section \<open>Properties of floor-generator.js\<close>

lemma findRoom_Some:
  "findRoom rs n = Some i \<Longrightarrow> i < length rs \<and> room_number (rs ! i) = n"
  by (induction rs arbitrary: i) (auto split: if_splits)

lemma findRoom_None: "findRoom rs n = None \<longleftrightarrow> n \<notin> room_number ` set rs"
  by (induction rs) auto

lemma findRoom_distinct:
  "distinct (map room_number rs) \<Longrightarrow> i < length rs \<Longrightarrow> findRoom rs (room_number (rs ! i)) = Some i"
proof (induction rs arbitrary: i)
  case Nil
  then show ?case by simp
next
  case (Cons r rs)
  show ?case
  proof (cases i)
    case 0
    then show ?thesis by simp
  next
    case (Suc k)
    then have "room_number (rs ! k) \<in> room_number ` set rs" using Cons.prems by auto
    then have "room_number r \<noteq> room_number (rs ! k)" using Cons.prems by auto
    then show ?thesis using Suc Cons by auto
  qed
qed

lemma findRoom_cong:
  "map room_number rs = map room_number rs' \<Longrightarrow> findRoom rs n = findRoom rs' n"
proof (induction rs arbitrary: rs')
  case Nil
  then show ?case by simp
next
  case (Cons r rs)
  then obtain r' t where "rs' = r' # t" by (cases rs') auto
  then show ?case using Cons by auto
qed

lemma openRoom_simps [simp]:
  "room_number (openRoom cs a) = room_number a"
  "rtype (openRoom cs a) = rtype a"
  "connections (openRoom cs a) = connections a"
  "is_cleared (openRoom cs a) = is_cleared a"
  "is_accessible (openRoom cs a)
     \<longleftrightarrow> is_accessible a \<or> (room_number a \<in> set cs \<and> rtype a \<noteq> Some Locked)"
  by (auto simp: openRoom_def)

lemma openRoom_Nil [simp]: "openRoom [] a = a"
  by (simp add: openRoom_def)

lemma list_update_eq_map:
  assumes "i < length rs" and "g (rs ! i) = x" and "\<And>j. j < length rs \<Longrightarrow> j \<noteq> i \<Longrightarrow> g (rs ! j) = rs ! j"
  shows "rs[i := x] = map g rs"
  by (rule nth_equalityI) (use assms in \<open>auto simp: nth_list_update\<close>)

lemma distinct_numbers_nth:
  "distinct (map room_number rs) \<Longrightarrow> i < length rs \<Longrightarrow> j < length rs
     \<Longrightarrow> room_number (rs ! i) = room_number (rs ! j) \<Longrightarrow> i = j"
  by (metis distinct_conv_nth length_map nth_map)

lemma clearStep_char:
  assumes "distinct (map room_number rs)"
  shows "clearStep c (rs, nw) =
     (map (openRoom [c]) rs,
      nw @ (if \<exists>a \<in> set rs. room_number a = c \<and> \<not> is_accessible a \<and> rtype a \<noteq> Some Locked
            then [c] else []))"
proof (cases "findRoom rs c")
  case None
  then have nin: "c \<notin> room_number ` set rs" by (simp add: findRoom_None)
  then have "map (openRoom [c]) rs = rs"
    by (intro map_idI) (auto simp: openRoom_def)
  moreover have "\<not> (\<exists>a \<in> set rs. room_number a = c \<and> \<not> is_accessible a \<and> rtype a \<noteq> Some Locked)"
    using nin by auto
  ultimately show ?thesis using None by (simp add: clearStep_def)
next
  case (Some j)
  then have j: "j < length rs" "room_number (rs ! j) = c" using findRoom_Some by blast+
  have others: "\<And>k. k < length rs \<Longrightarrow> k \<noteq> j \<Longrightarrow> room_number (rs ! k) \<noteq> c"
    using distinct_numbers_nth [OF assms] j by blast
  have only: "\<And>a. a \<in> set rs \<Longrightarrow> room_number a = c \<Longrightarrow> a = rs ! j"
    using others j by (metis in_set_conv_nth)
  show ?thesis
  proof (cases "\<not> is_accessible (rs ! j) \<and> rtype (rs ! j) \<noteq> Some Locked")
    case True
    have "rs[j := (rs ! j)\<lparr>is_accessible := True\<rparr>] = map (openRoom [c]) rs"
      using j True others by (intro list_update_eq_map) (auto simp: openRoom_def)
    moreover have "\<exists>a \<in> set rs. room_number a = c \<and> \<not> is_accessible a \<and> rtype a \<noteq> Some Locked"
      using True j by (metis nth_mem)
    ultimately show ?thesis using Some True by (simp add: clearStep_def)
  next
    case False
    have "map (openRoom [c]) rs = rs"
    proof (intro map_idI)
      fix a assume "a \<in> set rs"
      then show "openRoom [c] a = a" using only [of a] False by (auto simp: openRoom_def)
    qed
    moreover have "\<not> (\<exists>a \<in> set rs. room_number a = c \<and> \<not> is_accessible a \<and> rtype a \<noteq> Some Locked)"
      using only False by blast
    ultimately show ?thesis using Some False by (auto simp add: clearStep_def)
  qed
qed

lemma openRoom_openRoom: "openRoom cs (openRoom [c] a) = openRoom (c # cs) a"
  by (auto simp: openRoom_def)

lemma clear_loop:
  assumes "distinct (map room_number rs)"
  shows "\<exists>ext. fold clearStep cs (rs, nw) = (map (openRoom cs) rs, nw @ ext)
           \<and> distinct ext \<and> set ext = newlyOpened rs cs"
  using assms
proof (induction cs arbitrary: rs nw)
  case Nil
  then show ?case by (simp add: newlyOpened_def map_idI)
next
  case (Cons c cs)
  let ?rs1 = "map (openRoom [c]) rs"
  let ?e1 = "(if \<exists>a \<in> set rs. room_number a = c \<and> \<not> is_accessible a \<and> rtype a \<noteq> Some Locked
            then [c] else [])"
  have d1: "distinct (map room_number ?rs1)" using Cons.prems by (simp add: comp_def)
  obtain ext where ext: "fold clearStep cs (?rs1, nw @ ?e1) = (map (openRoom cs) ?rs1, (nw @ ?e1) @ ext)"
    "distinct ext" "set ext = newlyOpened ?rs1 cs"
    using Cons.IH [OF d1, of "nw @ ?e1"] by blast
  have m: "map (openRoom cs) ?rs1 = map (openRoom (c # cs)) rs"
    by (simp add: openRoom_openRoom comp_def)
  have s2: "newlyOpened ?rs1 cs = newlyOpened rs cs - {c}"
  proof (intro set_eqI iffI)
    fix n assume "n \<in> newlyOpened ?rs1 cs"
    then obtain a where a: "a \<in> set rs" "n = room_number a" "room_number a \<in> set cs"
        "\<not> is_accessible (openRoom [c] a)" "rtype a \<noteq> Some Locked"
      by (auto simp: newlyOpened_def)
    then have "\<not> is_accessible a" "room_number a \<noteq> c" by auto
    then show "n \<in> newlyOpened rs cs - {c}" using a by (auto simp: newlyOpened_def)
  next
    fix n assume "n \<in> newlyOpened rs cs - {c}"
    then obtain a where a: "a \<in> set rs" "n = room_number a" "room_number a \<in> set cs"
        "\<not> is_accessible a" "rtype a \<noteq> Some Locked" "room_number a \<noteq> c"
      by (auto simp: newlyOpened_def)
    then have "openRoom [c] a = a" by (simp add: openRoom_def)
    then have "a \<in> set ?rs1" using a(1) by (metis image_eqI set_map)
    then show "n \<in> newlyOpened ?rs1 cs" using a by (auto simp: newlyOpened_def)
  qed
  have cnot: "c \<notin> newlyOpened ?rs1 cs" by (simp add: s2)
  have s3: "newlyOpened rs (c # cs) = set ?e1 \<union> newlyOpened rs cs"
    by (auto simp: newlyOpened_def)
  have s1: "newlyOpened rs (c # cs) = set ?e1 \<union> newlyOpened ?rs1 cs"
    unfolding s2 s3 by (auto simp: newlyOpened_def)
  have "distinct (?e1 @ ext)" using ext(2,3) cnot by auto
  moreover have "set (?e1 @ ext) = newlyOpened rs (c # cs)" using s1 ext(3) by auto
  moreover have "fold clearStep (c # cs) (rs, nw) = (map (openRoom (c # cs)) rs, nw @ (?e1 @ ext))"
    using ext(1) m by (simp add: clearStep_char [OF Cons.prems])
  ultimately show ?case by blast
qed

lemma markCleared_simps [simp]:
  "room_number (markCleared n a) = room_number a"
  "rtype (markCleared n a) = rtype a"
  "connections (markCleared n a) = connections a"
  "is_accessible (markCleared n a) = is_accessible a"
  "is_cleared (markCleared n a) \<longleftrightarrow> is_cleared a \<or> room_number a = n"
  by (auto simp: markCleared_def)

lemma newlyOpened_markCleared:
  "newlyOpened (map (markCleared n) fm) cs = newlyOpened fm cs"
proof (intro set_eqI iffI)
  fix x assume "x \<in> newlyOpened (map (markCleared n) fm) cs"
  then obtain a where "a \<in> set fm" "x = room_number a" "room_number a \<in> set cs"
      "\<not> is_accessible a" "rtype a \<noteq> Some Locked"
    by (auto simp: newlyOpened_def)
  then show "x \<in> newlyOpened fm cs" by (auto simp: newlyOpened_def)
next
  fix x assume "x \<in> newlyOpened fm cs"
  then obtain a where a: "a \<in> set fm" "x = room_number a" "room_number a \<in> set cs"
      "\<not> is_accessible a" "rtype a \<noteq> Some Locked"
    by (auto simp: newlyOpened_def)
  let ?b = "markCleared n a"
  have "?b \<in> set (map (markCleared n) fm)" using a(1) by simp
  moreover have "x = room_number ?b" "room_number ?b \<in> set cs" "\<not> is_accessible ?b"
      "rtype ?b \<noteq> Some Locked"
    using a by simp_all
  ultimately show "x \<in> newlyOpened (map (markCleared n) fm) cs"
    unfolding newlyOpened_def by blast
qed

lemma clearRoom_char:
  assumes "distinct (map room_number fm)" and "findRoom fm n = Some i"
  shows "\<exists>newly. clearRoom fm n
            = (map (\<lambda>a. openRoom (connections (fm ! i)) (markCleared n a)) fm, newly)
          \<and> distinct newly \<and> set newly = newlyOpened fm (connections (fm ! i))"
proof -
  let ?cs = "connections (fm ! i)"
  let ?rs1 = "fm[i := (fm ! i)\<lparr>is_cleared := True\<rparr>]"
  have i: "i < length fm" "room_number (fm ! i) = n" using findRoom_Some [OF assms(2)] by auto
  have others: "\<And>k. k < length fm \<Longrightarrow> k \<noteq> i \<Longrightarrow> room_number (fm ! k) \<noteq> n"
    using distinct_numbers_nth [OF assms(1)] i by blast
  have r1: "?rs1 = map (markCleared n) fm"
    using i others by (intro list_update_eq_map) (auto simp: markCleared_def)
  have d1: "distinct (map room_number ?rs1)" unfolding r1 using assms(1) by (simp add: comp_def)
  obtain ext where ext: "fold clearStep ?cs (?rs1, []) = (map (openRoom ?cs) ?rs1, [] @ ext)"
      "distinct ext" "set ext = newlyOpened ?rs1 ?cs"
    using clear_loop [OF d1, of ?cs "[]"] by blast
  have "newlyOpened ?rs1 ?cs = newlyOpened fm ?cs"
    unfolding r1 by (rule newlyOpened_markCleared)
  moreover have "clearRoom fm n = fold clearStep ?cs (?rs1, [])"
    by (simp add: clearRoom_def assms(2))
  then have "clearRoom fm n = (map (\<lambda>a. openRoom ?cs (markCleared n a)) fm, ext)"
    using ext(1) by (simp add: r1 comp_def)
  ultimately show ?thesis using ext(2,3) by auto
qed

text \<open>
  C9. On a floor map whose rooms have different numbers, \<open>clearRoom(floorMap, N)\<close> marks
  room \<open>N\<close> cleared and sets \<open>is_accessible\<close> on exactly the rooms that are directly
  connected to \<open>N\<close>, are not of type \<open>locked\<close> and were not accessible before; every other
  field of every room, and the accessibility of every other room, is unchanged; and the
  returned list holds exactly the numbers of the rooms made accessible, each once. When no
  room has number \<open>N\<close> nothing changes and the list is empty.
\<close>

theorem clearRoom_frame:
  assumes "distinct (map room_number fm)"
  shows "case getCurrentRoom fm n of
           None \<Rightarrow> clearRoom fm n = (fm, [])
         | Some room \<Rightarrow>
             (let opened = (\<lambda>a. room_number a \<in> set (connections room)
                                 \<and> rtype a \<noteq> Some Locked \<and> \<not> is_accessible a)
              in fst (clearRoom fm n)
                   = map (\<lambda>a. a\<lparr>is_cleared := is_cleared a \<or> room_number a = n,
                                   is_accessible := is_accessible a \<or> opened a\<rparr>) fm
               \<and> set (snd (clearRoom fm n)) = {room_number a | a. a \<in> set fm \<and> opened a}
               \<and> distinct (snd (clearRoom fm n)))"
proof (cases "findRoom fm n")
  case None
  then show ?thesis by (simp add: getCurrentRoom_def clearRoom_def)
next
  case (Some i)
  obtain newly where c: "clearRoom fm n
            = (map (\<lambda>a. openRoom (connections (fm ! i)) (markCleared n a)) fm, newly)"
      "distinct newly" "set newly = newlyOpened fm (connections (fm ! i))"
    using clearRoom_char [OF assms Some] by blast
  have eq: "openRoom cs (markCleared n a)
      = a\<lparr>is_cleared := is_cleared a \<or> room_number a = n,
           is_accessible := is_accessible a
              \<or> (room_number a \<in> set cs \<and> rtype a \<noteq> Some Locked \<and> \<not> is_accessible a)\<rparr>" for cs a
    by (cases "is_accessible a"; cases "room_number a = n")
       (auto simp: openRoom_def markCleared_def)
  show ?thesis
    using Some c by (auto simp: getCurrentRoom_def Let_def eq newlyOpened_def)
qed

lemma roll3_range:
  assumes "unit_draw u"
  shows "1 \<le> roll 3 u \<and> roll 3 u \<le> 3"
proof -
  have "0 \<le> u * 3" "u * 3 < 3" using assms by (simp_all add: unit_draw_def)
  then have "0 \<le> \<lfloor>u * 3\<rfloor>" "\<lfloor>u * 3\<rfloor> < 3" by (simp_all add: floor_less_iff)
  then show ?thesis by (simp add: roll_def)
qed

lemma grows_refl: "grows rs rs"
  by (simp add: grows_def)

lemma grows_trans: "grows a b \<Longrightarrow> grows b c \<Longrightarrow> grows a c"
  unfolding grows_def by (metis subset_trans)

lemma grows_length: "grows a b \<Longrightarrow> length b = length a"
  by (simp add: grows_def)

lemma fold_grows:
  assumes "\<And>i rs. i \<in> set js \<Longrightarrow> length rs = n \<Longrightarrow> grows rs (f i rs)"
    and "length rs = n"
  shows "grows rs (fold f js rs)"
  using assms
proof (induction js arbitrary: rs)
  case Nil
  then show ?case by (simp add: grows_refl)
next
  case (Cons j js)
  have 1: "grows rs (f j rs)" using Cons.prems by simp
  then have "length (f j rs) = n" using Cons.prems(2) by (simp add: grows_length)
  then have "grows (f j rs) (fold f js (f j rs))" using Cons by simp
  then show ?case using 1 grows_trans by auto
qed

lemma linkStep_grows:
  assumes "i + 1 < length rs"
  shows "grows rs (linkStep i rs)"
  using assms unfolding grows_def linkStep_def Let_def
  by (auto simp: nth_list_update)

lemma linkStep_edge:
  assumes "i + 1 < length rs"
  shows "room_number (rs ! (i + 1)) \<in> set (connections (linkStep i rs ! i))"
  using assms unfolding linkStep_def Let_def
  by (auto simp: nth_list_update)

lemma linkStep_closes:
  assumes "i + 1 < length rs"
  shows "is_accessible (linkStep i rs ! (i + 1)) \<longrightarrow> rtype (rs ! (i + 1)) = Some Locked"
  using assms unfolding linkStep_def Let_def
  by (auto simp: nth_list_update)

lemma branchStep_grows: "grows rs (branchStep draws i rs)"
  unfolding grows_def branchStep_def Let_def
  by (auto simp: nth_list_update)

lemma branchStep_accessible:
  "k < length rs \<Longrightarrow> is_accessible (branchStep draws i rs ! k) = is_accessible (rs ! k)"
  unfolding branchStep_def Let_def
  by (auto simp: nth_list_update)

lemma link_fold_grows:
  assumes "m < length rs"
  shows "grows rs (fold linkStep [0..<m] rs)"
  by (rule fold_grows [where n = "length rs"]) (use assms in \<open>auto intro: linkStep_grows\<close>)

lemma link_fold_chain:
  assumes "m < length rs"
  shows "\<forall>k < m. room_number (rs ! (k + 1)) \<in> set (connections (fold linkStep [0..<m] rs ! k))
               \<and> (is_accessible (fold linkStep [0..<m] rs ! (k + 1))
                     \<longrightarrow> rtype (rs ! (k + 1)) = Some Locked)"
  using assms
proof (induction m)
  case 0
  then show ?case by simp
next
  case (Suc m)
  let ?a = "fold linkStep [0..<m] rs"
  let ?b = "linkStep m ?a"
  have m: "m < length rs" "m + 1 < length rs" using Suc.prems by auto
  have ga: "grows rs ?a" using link_fold_grows m(1) by blast
  then have la: "m + 1 < length ?a" using m by (simp add: grows_length)
  have gb: "grows ?a ?b" using linkStep_grows la by blast
  have fb: "fold linkStep [0..<Suc m] rs = ?b" by simp
  have na: "room_number (?a ! (m + 1)) = room_number (rs ! (m + 1))"
       "rtype (?a ! (m + 1)) = rtype (rs ! (m + 1))"
    using ga m by (auto simp: grows_def)
  show ?case
  proof (intro allI impI)
    fix k assume k: "k < Suc m"
    show "room_number (rs ! (k + 1)) \<in> set (connections (fold linkStep [0..<Suc m] rs ! k))
        \<and> (is_accessible (fold linkStep [0..<Suc m] rs ! (k + 1))
               \<longrightarrow> rtype (rs ! (k + 1)) = Some Locked)"
    proof (cases "k = m")
      case True
      then show ?thesis
        using linkStep_edge [OF la] linkStep_closes [OF la] na unfolding fb by simp
    next
      case False
      then have km: "k < m" using k by simp
      then have ih: "room_number (rs ! (k + 1)) \<in> set (connections (?a ! k))"
          "is_accessible (?a ! (k + 1)) \<longrightarrow> rtype (rs ! (k + 1)) = Some Locked"
        using Suc.IH m(1) by auto
      have "k < length ?a" "k + 1 < length ?a" using km la by auto
      then have "set (connections (?a ! k)) \<subseteq> set (connections (?b ! k))"
          "is_accessible (?b ! (k + 1)) \<longrightarrow> is_accessible (?a ! (k + 1))"
        using gb by (auto simp: grows_def)
      then show ?thesis using ih unfolding fb by auto
    qed
  qed
qed

lemma branch_fold_grows: "grows rs (fold (branchStep draws) js rs)"
  by (rule fold_grows [where n = "length rs"]) (auto intro: branchStep_grows)

lemma branch_fold_accessible:
  "k < length rs \<Longrightarrow> is_accessible (fold (branchStep draws) js rs ! k) = is_accessible (rs ! k)"
proof (induction js arbitrary: rs)
  case Nil
  then show ?case by simp
next
  case (Cons j js)
  have "length (branchStep draws j rs) = length rs"
    using branchStep_grows grows_length by blast
  then show ?case using Cons by (simp add: branchStep_accessible)
qed

lemma nth_list_update_proj:
  assumes "f x = f (xs ! i)"
  shows "f (xs[i := x] ! k) = f (xs ! k)"
  using assms by (cases "i < length xs"; cases "i = k") (auto simp: list_update_beyond not_less)

text \<open>What \<open>generateConnections\<close> establishes on a list of at least two rooms.\<close>

lemma generateConnections_props:
  fixes draws :: "nat \<Rightarrow> room_draws" and rs :: "room list"
  assumes "2 \<le> length rs"
  defines "g \<equiv> generateConnections draws rs"
  shows "length g = length rs"
    and "map room_number g = map room_number rs"
    and "map rtype g = map rtype rs"
    and "is_accessible (g ! 0)"
    and "\<forall>k. k + 1 < length rs \<longrightarrow> room_number (rs ! (k + 1)) \<in> set (connections (g ! k))"
    and "\<forall>k. 0 < k \<and> k < length rs \<longrightarrow> is_accessible (g ! k)
            \<longrightarrow> rtype (rs ! k) = Some Locked \<and> is_accessible (rs ! k)"
proof -
  let ?m = "length rs - 1"
  let ?r1 = "fold linkStep [0..<?m] rs"
  let ?r2 = "?r1[0 := (?r1 ! 0)\<lparr>is_accessible := True\<rparr>]"
  have g: "g = fold (branchStep draws) [1..<length rs - 2] ?r2"
    by (simp add: g_def generateConnections_def Let_def)
  have m: "?m < length rs" using assms(1) by simp
  have g1: "grows rs ?r1" using link_fold_grows [OF m] .
  have l1: "length ?r1 = length rs" using g1 by (simp add: grows_length)
  have gb: "grows ?r2 g" unfolding g by (rule branch_fold_grows)
  have l2: "length ?r2 = length rs" using l1 by simp
  show len: "length g = length rs" using gb l2 by (simp add: grows_length)
  have num: "\<forall>k < length rs. room_number (g ! k) = room_number (rs ! k)
        \<and> rtype (g ! k) = rtype (rs ! k)"
  proof (intro allI impI)
    fix k assume k: "k < length rs"
    have "room_number (g ! k) = room_number (?r2 ! k)" "rtype (g ! k) = rtype (?r2 ! k)"
      using gb k l2 by (auto simp: grows_def)
    moreover have "room_number (?r2 ! k) = room_number (?r1 ! k)" "rtype (?r2 ! k) = rtype (?r1 ! k)"
      by (simp_all add: nth_list_update_proj)
    moreover have "room_number (?r1 ! k) = room_number (rs ! k)" "rtype (?r1 ! k) = rtype (rs ! k)"
      using g1 k by (auto simp: grows_def)
    ultimately show "room_number (g ! k) = room_number (rs ! k) \<and> rtype (g ! k) = rtype (rs ! k)"
      by simp
  qed
  show "map room_number g = map room_number rs"
    by (rule nth_equalityI) (use len num in auto)
  show "map rtype g = map rtype rs"
    by (rule nth_equalityI) (use len num in auto)
  have "0 < length ?r1" using l1 assms(1) by linarith
  then have "is_accessible (?r2 ! 0)" by (simp only: nth_list_update_eq) simp
  moreover have nz: "0 < length ?r2" using l2 assms(1) by linarith
  have "is_accessible (fold (branchStep draws) [1..<length rs - 2] ?r2 ! 0)
      = is_accessible (?r2 ! 0)"
    by (rule branch_fold_accessible [OF nz])
  ultimately show "is_accessible (g ! 0)" unfolding g by blast
  show "\<forall>k. k + 1 < length rs \<longrightarrow> room_number (rs ! (k + 1)) \<in> set (connections (g ! k))"
  proof (intro allI impI)
    fix k assume k: "k + 1 < length rs"
    then have "k < ?m" by simp
    then have "room_number (rs ! (k + 1)) \<in> set (connections (?r1 ! k))"
      using link_fold_chain [OF m] by blast
    moreover have "connections (?r2 ! k) = connections (?r1 ! k)"
      by (simp add: nth_list_update_proj)
    moreover have "set (connections (?r2 ! k)) \<subseteq> set (connections (g ! k))"
      using gb k l2 by (auto simp: grows_def)
    ultimately show "room_number (rs ! (k + 1)) \<in> set (connections (g ! k))" by auto
  qed
  show "\<forall>k. 0 < k \<and> k < length rs \<longrightarrow> is_accessible (g ! k)
            \<longrightarrow> rtype (rs ! k) = Some Locked \<and> is_accessible (rs ! k)"
  proof (intro allI impI)
    fix k assume k: "0 < k \<and> k < length rs" and acc: "is_accessible (g ! k)"
    then obtain j where j: "k = j + 1" "j < ?m" by (cases k) auto
    have kl: "k < length ?r2" using k l2 by linarith
    have "is_accessible (fold (branchStep draws) [1..<length rs - 2] ?r2 ! k)
        = is_accessible (?r2 ! k)"
      by (rule branch_fold_accessible [OF kl])
    then have "is_accessible (?r2 ! k)" using acc unfolding g by blast
    moreover have "?r2 ! k = ?r1 ! k" using k by simp
    ultimately have "is_accessible (?r1 ! k)" by simp
    moreover have "is_accessible (?r1 ! k) \<longrightarrow> is_accessible (rs ! k)"
      using g1 k by (auto simp: grows_def)
    ultimately show "rtype (rs ! k) = Some Locked \<and> is_accessible (rs ! k)"
      using link_fold_chain [OF m] j by auto
  qed
qed

text \<open>The list of rooms that \<open>generateFloor\<close> hands to \<open>generateConnections\<close>.\<close>

lemma createRoom_simps [simp]:
  "room_number (createRoom n t lo hi e b x d) = n"
  "rtype (createRoom n t lo hi e b x d) = t"
  "is_accessible (createRoom n t lo hi e b x d) \<longleftrightarrow> t \<noteq> Some Locked \<and> n = 1"
  by (simp_all add: createRoom_def)

lemma generateFloor_props:
  fixes floorNumber :: nat and dcMin dcMax :: int and isFinalFloor :: bool
    and count_u :: real and draws :: "nat \<Rightarrow> room_draws"
  assumes "unit_draw count_u"
  defines "rc \<equiv> 4 + int (floorNumber div 2) + roll 3 count_u - 1"
  defines "g \<equiv> generateFloor dcMin dcMax floorNumber isFinalFloor count_u draws"
  shows "length g = nat rc"
    and "map room_number g = [1..rc]"
    and "is_accessible (g ! 0)"
    and "\<forall>k. k + 1 < length g \<longrightarrow> room_number (g ! (k + 1)) \<in> set (connections (g ! k))"
    and "\<forall>k < length g. rtype (g ! k) = Some Locked \<longrightarrow> \<not> is_accessible (g ! k)"
proof -
  have rc4: "4 \<le> rc" using roll3_range [OF assms(1)] by (simp add: rc_def)
  define entrance where "entrance = createRoom 1 (Some Standard) dcMin dcMax True False False (draws 1)"
  define middle where "middle = map (\<lambda>i. let t = pickRoomType (int floorNumber) (type_u (draws (nat i)));
                               t' = (if i = 2 \<and> t = Some Locked then Some Standard else t)
                           in createRoom i t' dcMin dcMax False False False (draws (nat i)))
                      [2..rc - 1]"
  define final where "final = (if isFinalFloor
                  then createRoom rc (Some Boss) dcMin dcMax False True False
                         (draws (nat rc))
                  else createRoom rc (Some Standard) dcMin dcMax False False True
                         (draws (nat rc)))"
  define L where "L = (entrance # middle) @ [final]"
  have g: "g = generateConnections draws L"
    unfolding g_def generateFloor_def L_def entrance_def middle_def final_def rc_def Let_def
    by simp
  have nm: "map room_number middle = [2..rc - 1]"
    unfolding middle_def by (simp add: Let_def comp_def)
  have nf: "room_number final = rc" by (simp add: final_def)
  have "[1..rc] = 1 # [2..rc]" using rc4 by (simp add: upto_rec1)
  also have "[2..rc] = [2..rc - 1] @ [rc]" using rc4 by (simp add: upto_rec2)
  finally have up: "[1..rc] = 1 # [2..rc - 1] @ [rc]" .
  have numL: "map room_number L = [1..rc]"
    unfolding L_def up by (simp add: nm nf entrance_def)
  have lenL: "length L = nat rc"
    using arg_cong [OF numL, of length] by simp
  have two: "2 \<le> length L" using lenL rc4 by simp
  have lockedL: "\<forall>k < length L. rtype (L ! k) = Some Locked \<longrightarrow> \<not> is_accessible (L ! k)"
  proof (intro allI impI)
    fix k assume "k < length L" "rtype (L ! k) = Some Locked"
    then have "L ! k \<in> set L" by simp
    then have "L ! k = entrance \<or> L ! k \<in> set middle \<or> L ! k = final" by (auto simp: L_def)
    then show "\<not> is_accessible (L ! k)"
      using \<open>rtype (L ! k) = Some Locked\<close>
      by (auto simp: entrance_def middle_def final_def Let_def split: if_splits)
  qed
  note P = generateConnections_props [OF two, of draws, folded g]
  show "length g = nat rc" using P(1) lenL by simp
  show "map room_number g = [1..rc]" using P(2) numL by simp
  show "is_accessible (g ! 0)" using P(4) .
  show "\<forall>k. k + 1 < length g \<longrightarrow> room_number (g ! (k + 1)) \<in> set (connections (g ! k))"
  proof (intro allI impI)
    fix k assume k: "k + 1 < length g"
    then have "room_number (L ! (k + 1)) \<in> set (connections (g ! k))" using P(1,5) by simp
    moreover have "room_number (g ! (k + 1)) = room_number (L ! (k + 1))"
      using P(1,2) k by (metis length_map nth_map)
    ultimately show "room_number (g ! (k + 1)) \<in> set (connections (g ! k))" by simp
  qed
  show "\<forall>k < length g. rtype (g ! k) = Some Locked \<longrightarrow> \<not> is_accessible (g ! k)"
  proof (intro allI impI)
    fix k assume k: "k < length g" and lk: "rtype (g ! k) = Some Locked"
    have tk: "rtype (g ! k) = rtype (L ! k)" using P(1,3) k by (metis length_map nth_map)
    show "\<not> is_accessible (g ! k)"
    proof (cases "k = 0")
      case True
      then have "rtype (L ! k) = Some Standard" by (simp add: L_def entrance_def)
      then show ?thesis using tk lk by simp
    next
      case False
      then show ?thesis using P(1,6) k lockedL lk tk by auto
    qed
  qed
qed

lemma applyOp_inv:
  assumes "distinct (map room_number fm)"
  shows "opInv op fm (applyOp op fm)"
proof (cases op)
  case (ClearRoom n)
  show ?thesis
  proof (cases "findRoom fm n")
    case None
    then show ?thesis using ClearRoom by (simp add: clearRoom_def opInv_def)
  next
    case (Some i)
    then obtain newly where "clearRoom fm n
            = (map (\<lambda>a. openRoom (connections (fm ! i)) (markCleared n a)) fm, newly)"
      using clearRoom_char [OF assms Some] by blast
    then show ?thesis using ClearRoom by (auto simp: opInv_def)
  qed
next
  case (UnlockRoom n)
  show ?thesis
  proof (cases "findRoom fm n")
    case None
    then show ?thesis using UnlockRoom by (simp add: unlockRoom_def opInv_def)
  next
    case (Some i)
    then have i: "i < length fm" "room_number (fm ! i) = n" using findRoom_Some by blast+
    show ?thesis
      using UnlockRoom Some i by (auto simp: unlockRoom_def opInv_def nth_list_update)
  qed
qed

lemma opInv_numbers: "opInv op fm fm' \<Longrightarrow> map room_number fm' = map room_number fm"
  by (rule nth_equalityI) (auto simp: opInv_def)

lemma applyOps_inv:
  assumes "distinct (map room_number fm)"
  shows "length (fold applyOp ops fm) = length fm
     \<and> (\<forall>k < length fm.
           room_number (fold applyOp ops fm ! k) = room_number (fm ! k)
         \<and> rtype (fold applyOp ops fm ! k) = rtype (fm ! k)
         \<and> connections (fold applyOp ops fm ! k) = connections (fm ! k)
         \<and> (is_accessible (fm ! k) \<longrightarrow> is_accessible (fold applyOp ops fm ! k))
         \<and> (is_accessible (fold applyOp ops fm ! k) \<and> rtype (fm ! k) = Some Locked
               \<longrightarrow> is_accessible (fm ! k) \<or> UnlockRoom (room_number (fm ! k)) \<in> set ops))"
  using assms
proof (induction ops arbitrary: fm)
  case Nil
  then show ?case by simp
next
  case (Cons op ops)
  let ?m = "applyOp op fm"
  have 1: "opInv op fm ?m" using applyOp_inv [OF Cons.prems] .
  then have d: "distinct (map room_number ?m)" using Cons.prems by (simp add: opInv_numbers)
  note ih = Cons.IH [OF d]
  have l: "length ?m = length fm" using 1 by (simp add: opInv_def)
  show ?case
  proof (intro conjI allI impI)
    show "length (fold applyOp (op # ops) fm) = length fm" using ih l by simp
  next
    fix k assume k: "k < length fm"
    then have km: "k < length ?m" using l by simp
    show "room_number (fold applyOp (op # ops) fm ! k) = room_number (fm ! k)"
      using ih km 1 k by (simp add: opInv_def)
    show "rtype (fold applyOp (op # ops) fm ! k) = rtype (fm ! k)"
      using ih km 1 k by (simp add: opInv_def)
    show "connections (fold applyOp (op # ops) fm ! k) = connections (fm ! k)"
      using ih km 1 k by (simp add: opInv_def)
  next
    fix k assume k: "k < length fm" and "is_accessible (fm ! k)"
    then have "is_accessible (?m ! k)" using 1 by (simp add: opInv_def)
    then show "is_accessible (fold applyOp (op # ops) fm ! k)" using ih k l by simp
  next
    fix k assume k: "k < length fm"
      and a: "is_accessible (fold applyOp (op # ops) fm ! k) \<and> rtype (fm ! k) = Some Locked"
    have km: "k < length ?m" using k l by simp
    have s: "room_number (?m ! k) = room_number (fm ! k)" "rtype (?m ! k) = rtype (fm ! k)"
      using 1 k by (simp_all add: opInv_def)
    have "is_accessible (?m ! k) \<or> UnlockRoom (room_number (fm ! k)) \<in> set ops"
      using ih km a s by auto
    moreover have "is_accessible (?m ! k) \<longrightarrow>
        is_accessible (fm ! k) \<or> op = UnlockRoom (room_number (fm ! k))"
      using 1 k a by (simp add: opInv_def)
    ultimately show "is_accessible (fm ! k) \<or> UnlockRoom (room_number (fm ! k)) \<in> set (op # ops)"
      by auto
  qed
qed

lemma edges_nth:
  "edges fm = {(x, c). \<exists>k < length fm. x = room_number (fm ! k) \<and> c \<in> set (connections (fm ! k))}"
proof -
  have "(\<exists>r \<in> set fm. Q r) \<longleftrightarrow> (\<exists>k < length fm. Q (fm ! k))" for Q
    by (metis in_set_conv_nth)
  then have "edges fm = {(a, b). \<exists>k < length fm. room_number (fm ! k) = a
                 \<and> b \<in> set (connections (fm ! k))}"
    unfolding edges_def by simp
  also have "\<dots> = {(x, c). \<exists>k < length fm. x = room_number (fm ! k)
                 \<and> c \<in> set (connections (fm ! k))}"
    by (rule Collect_cong) auto
  finally show ?thesis .
qed

lemma edges_cong:
  assumes "length b = length a"
    and "\<forall>k < length a. room_number (b ! k) = room_number (a ! k)
            \<and> connections (b ! k) = connections (a ! k)"
  shows "edges b = edges a"
  unfolding edges_nth using assms by auto

lemma chain_connected:
  assumes "\<forall>k < length g. room_number (g ! k) = 1 + int k"
    and "\<forall>k. k + 1 < length g \<longrightarrow> room_number (g ! (k + 1)) \<in> set (connections (g ! k))"
  shows "k < length g \<Longrightarrow> (1, room_number (g ! k)) \<in> (edges g)\<^sup>*"
proof (induction k)
  case 0
  then show ?case using assms(1) by simp
next
  case (Suc k)
  then have "(1, room_number (g ! k)) \<in> (edges g)\<^sup>*" by simp
  moreover have "g ! k \<in> set g" using Suc.prems by simp
  then have "(room_number (g ! k), room_number (g ! Suc k)) \<in> edges g"
    unfolding edges_def using assms(2) Suc.prems by auto
  ultimately show ?case by (rule rtrancl_into_rtrancl)
qed

text \<open>
  C3. For every floor map returned by \<open>generateFloor\<close>, and after any sequence of
  \<open>clearRoom\<close> and \<open>unlockRoom\<close> calls on it: room 1 is accessible; the room graph is
  connected (from room 1 a path of connections leads to every room); and a room of type
  \<open>locked\<close> is accessible only if \<open>unlockRoom\<close> was called on its number, so
  \<open>clearRoom\<close> never opens a locked room.
\<close>

theorem generated_floor_invariants:
  fixes floorNumber :: nat and dcMin dcMax :: int and isFinalFloor :: bool
    and count_u :: real and draws :: "nat \<Rightarrow> room_draws" and ops :: "floor_op list"
  assumes "unit_draw count_u" and "\<forall>i. valid_draws (draws i)"
  defines "fm \<equiv> fold applyOp ops
                   (generateFloor dcMin dcMax floorNumber isFinalFloor count_u draws)"
  shows "(\<exists>r. getCurrentRoom fm 1 = Some r \<and> is_accessible r)
       \<and> (\<forall>r \<in> set fm. (1, room_number r) \<in> (edges fm)\<^sup>*)
       \<and> (\<forall>r \<in> set fm. rtype r = Some Locked \<and> is_accessible r
             \<longrightarrow> UnlockRoom (room_number r) \<in> set ops)"
proof -
  define g where "g = generateFloor dcMin dcMax floorNumber isFinalFloor count_u draws"
  define rc where "rc = 4 + int (floorNumber div 2) + roll 3 count_u - 1"
  note G = generateFloor_props [OF assms(1), where floorNumber = floorNumber
      and dcMin = dcMin and dcMax = dcMax and isFinalFloor = isFinalFloor and draws = draws,
      folded g_def rc_def]
  have rc4: "4 \<le> rc" using roll3_range [OF assms(1)] by (simp add: rc_def)
  have dg: "distinct (map room_number g)" using G(2) by simp
  have fm: "fm = fold applyOp ops g" by (simp add: fm_def g_def)
  note I = applyOps_inv [OF dg, of ops, folded fm]
  have len: "length fm = length g" using I by simp
  have numg: "\<forall>k < length g. room_number (g ! k) = 1 + int k"
  proof (intro allI impI)
    fix k assume k: "k < length g"
    then have "room_number (g ! k) = [1..rc] ! k" using G(2) by (metis length_map nth_map)
    also have "\<dots> = 1 + int k" using k G(1) by (simp add: nth_upto)
    finally show "room_number (g ! k) = 1 + int k" .
  qed
  have e: "edges fm = edges g" using I by (intro edges_cong) auto
  have pos: "0 < length g" using G(1) rc4 by simp
  have dfm: "distinct (map room_number fm)"
  proof -
    have "map room_number fm = map room_number g"
      by (rule nth_equalityI) (use I in auto)
    then show ?thesis using dg by simp
  qed
  have "room_number (fm ! 0) = 1" using I pos numg by simp
  then have "findRoom fm 1 = Some 0"
    using findRoom_distinct [OF dfm, of 0] pos len by simp
  moreover have "is_accessible (fm ! 0)" using I pos G(3) by simp
  ultimately have 1: "\<exists>r. getCurrentRoom fm 1 = Some r \<and> is_accessible r"
    by (simp add: getCurrentRoom_def)
  have 2: "\<forall>r \<in> set fm. (1, room_number r) \<in> (edges fm)\<^sup>*"
  proof
    fix r assume "r \<in> set fm"
    then obtain k where k: "k < length fm" "r = fm ! k" by (auto simp: in_set_conv_nth)
    then have "room_number r = room_number (g ! k)" using I len by simp
    then show "(1, room_number r) \<in> (edges fm)\<^sup>*"
      using chain_connected [OF numg G(4), of k] k len e by simp
  qed
  have 3: "\<forall>r \<in> set fm. rtype r = Some Locked \<and> is_accessible r
             \<longrightarrow> UnlockRoom (room_number r) \<in> set ops"
  proof (intro ballI impI)
    fix r assume "r \<in> set fm" and a: "rtype r = Some Locked \<and> is_accessible r"
    then obtain k where k: "k < length g" "r = fm ! k" using len by (auto simp: in_set_conv_nth)
    then have t: "rtype (g ! k) = Some Locked" "room_number r = room_number (g ! k)"
      using I a by auto
    then have "\<not> is_accessible (g ! k)" using G(5) k by simp
    then show "UnlockRoom (room_number r) \<in> set ops" using I k a t by auto
  qed
  show ?thesis using 1 2 3 by blast
qed

text \<open>
  C5 (as amended). For every floor generated by \<open>generateFloor\<close> with floor number \<open>f\<close>,
  the number of rooms is \<open>base + roll(3) - 1\<close> with \<open>base = 4 + floor(f / 2)\<close>: it lies
  in the interval \<open>[base, base + 2]\<close>.
\<close>

theorem generateFloor_room_count:
  fixes floorNumber :: nat
  assumes "unit_draw count_u"
  defines "base \<equiv> 4 + int (floorNumber div 2)"
  shows "int (length (generateFloor dcMin dcMax floorNumber isFinalFloor count_u draws))
           = base + roll 3 count_u - 1
       \<and> base \<le> int (length (generateFloor dcMin dcMax floorNumber isFinalFloor count_u draws))
       \<and> int (length (generateFloor dcMin dcMax floorNumber isFinalFloor count_u draws)) \<le> base + 2"
proof -
  have "length (generateFloor dcMin dcMax floorNumber isFinalFloor count_u draws)
      = nat (base + roll 3 count_u - 1)"
    unfolding base_def by (rule generateFloor_props(1) [OF assms(1)])
  then show ?thesis using roll3_range [OF assms(1)] by (simp add: base_def)
qed

lemma demo_valid: "unit_draw (1/2)" "unit_draw (9/10)" "valid_draws (demo_draws i)"
  by (simp_all add: unit_draw_def valid_draws_def demo_draws_def demo_room_draws_def)

lemma demo_floor_eval:
  "map rtype demo_floor = [Some Standard, Some Standard, Some Locked, Some Locked, Some Standard]"
  "map connections demo_floor = [[2], [1, 3, 5], [2, 4, 5], [3, 5], [4, 2, 3]]"
  "map is_accessible demo_floor = [True, False, False, False, False]"
  "map is_accessible (fold applyOp demo_ops demo_floor) = [True, True, True, False, False]"
  by code_simp+

lemma demo_floor_after:
  "length (fold applyOp demo_ops demo_floor) = 5"
  "room_number (fold applyOp demo_ops demo_floor ! 4) = 5"
  "room_number (fold applyOp demo_ops demo_floor ! 2) = 3"
  "rtype (fold applyOp demo_ops demo_floor ! 2) = Some Locked"
  "is_accessible (fold applyOp demo_ops demo_floor ! 2)"
  by code_simp+

theorem generated_floor_invariants_witness:
  "unit_draw (1/2) \<and> (\<forall>i. valid_draws (demo_draws i))
   \<and> (\<exists>r. getCurrentRoom (fold applyOp demo_ops demo_floor) 1 = Some r \<and> is_accessible r)
   \<and> (1, 5) \<in> (edges (fold applyOp demo_ops demo_floor))\<^sup>*
   \<and> rtype (fold applyOp demo_ops demo_floor ! 2) = Some Locked
   \<and> is_accessible (fold applyOp demo_ops demo_floor ! 2)
   \<and> UnlockRoom 3 \<in> set demo_ops"
proof -
  let ?F = "fold applyOp demo_ops demo_floor"
  have m: "?F ! 4 \<in> set ?F" "?F ! 2 \<in> set ?F"
    using demo_floor_after(1) by simp_all
  have g: "(\<exists>r. getCurrentRoom ?F 1 = Some r \<and> is_accessible r)
       \<and> (\<forall>r \<in> set ?F. (1, room_number r) \<in> (edges ?F)\<^sup>*)
       \<and> (\<forall>r \<in> set ?F. rtype r = Some Locked \<and> is_accessible r
             \<longrightarrow> UnlockRoom (room_number r) \<in> set demo_ops)"
    using generated_floor_invariants [of "1/2" demo_draws demo_ops 8 14 1 False] demo_valid
    unfolding demo_floor_def by blast
  have "(1, room_number (?F ! 4)) \<in> (edges ?F)\<^sup>*" using g m(1) by blast
  moreover have "UnlockRoom (room_number (?F ! 2)) \<in> set demo_ops"
    using g m(2) demo_floor_after(4,5) by blast
  ultimately show ?thesis using g demo_valid demo_floor_after by simp
qed

lemma demo_six_rooms: "length (generateFloor 8 14 1 False (9/10) demo_draws) = 6"
  by code_simp

text \<open>
  C5 as stated, with the interval \<open>[base - 1, base + 1]\<close>, fails: on floor 1 a roll of 3
  gives 6 rooms, and \<open>base + 1 = 5\<close>.
\<close>

theorem generateFloor_room_count_counterexample:
  "\<not> (4 + int (1 div 2) - 1 \<le> int (length (generateFloor 8 14 1 False (9/10) demo_draws))
      \<and> int (length (generateFloor 8 14 1 False (9/10) demo_draws)) \<le> 4 + int (1 div 2) + 1)"
  unfolding demo_six_rooms by simp

theorem generateFloor_room_count_witness:
  "unit_draw (9/10)
   \<and> int (length (generateFloor 8 14 1 False (9/10) demo_draws)) = 4 + int (1 div 2) + 2"
proof -
  have "roll 3 (9/10) = 3" by (simp add: roll_def)
  then show ?thesis
    using generateFloor_room_count [where count_u = "9/10" and floorNumber = 1 and dcMin = 8
        and dcMax = 14 and isFinalFloor = False and draws = demo_draws] demo_valid(2)
    by simp
qed

lemma demo_clear:
  "map is_accessible (fst (clearRoom demo_map 1)) = [True, True, False]"
  "map is_cleared (fst (clearRoom demo_map 1)) = [True, False, False]"
  "snd (clearRoom demo_map 1) = [2]"
  "distinct (map room_number demo_map)"
  by code_simp+

lemma demo_current: "getCurrentRoom demo_map 1 = Some (plain_room 1 Standard True [2, 3])"
  by (simp add: getCurrentRoom_def demo_map_def plain_room_def)

theorem clearRoom_frame_witness:
  "distinct (map room_number demo_map)
   \<and> fst (clearRoom demo_map 1)
        = map (\<lambda>a. a\<lparr>is_cleared := is_cleared a \<or> room_number a = 1,
                        is_accessible := is_accessible a
                          \<or> (room_number a \<in> {2, 3} \<and> rtype a \<noteq> Some Locked
                               \<and> \<not> is_accessible a)\<rparr>) demo_map
   \<and> snd (clearRoom demo_map 1) = [2]"
  using clearRoom_frame [of demo_map 1] demo_clear(3,4) demo_current
  by (simp add: plain_room_def)

section \<open>Properties of combat.js\<close>

text \<open>
  C8. For every call of \<open>damageEnemy\<close> that brings the target's hp to 0 or below, the
  enemy is marked dead (with hp 0), and the combat flag of the room state is cleared if
  every enemy of the room state is then dead, and left as it was if at least one of them
  is still alive.
\<close>

theorem damageEnemy_death_ends_combat:
  fixes lootRules :: "source_type \<Rightarrow> int \<Rightarrow> loot_rule list" and store :: enemy_store
    and e :: nat and dmg :: real and damageType :: string and roomState :: room_state
    and loot_rnd :: "nat \<Rightarrow> real" and gold_u :: real
  defines "out \<equiv> damageEnemy lootRules store e dmg damageType roomState loot_rnd gold_u"
  defines "res \<equiv> fst out" and "store' \<equiv> fst (snd out)" and "roomState' \<equiv> snd (snd out)"
  assumes "hp_current (store e) - damageDealt res \<le> 0"
  shows "enemyDied res \<and> is_dead (store' e) \<and> hp_current (store' e) = 0
       \<and> enemy_refs roomState' = enemy_refs roomState
       \<and> ((\<forall>a \<in> set (enemy_refs roomState'). is_dead (store' a))
             \<longrightarrow> \<not> is_combat_active roomState')
       \<and> ((\<exists>a \<in> set (enemy_refs roomState'). \<not> is_dead (store' a))
             \<longrightarrow> is_combat_active roomState' = is_combat_active roomState)"
proof -
  have d: "damageDealt res = max 1 (round (dmg * (case resistances (store e) of
                         None \<Rightarrow> 1
                       | Some m \<Rightarrow> (case m damageType of None \<Rightarrow> 1 | Some x \<Rightarrow> x)))
                  - armor (store e))"
    unfolding res_def out_def damageEnemy_def Let_def by (simp split: if_splits)
  have dead: "hp_current (store e) - max 1 (round (dmg * (case resistances (store e) of
                         None \<Rightarrow> 1
                       | Some m \<Rightarrow> (case m damageType of None \<Rightarrow> 1 | Some x \<Rightarrow> x)))
                  - armor (store e)) \<le> 0"
    using assms(5) unfolding d .
  show ?thesis
    unfolding res_def store'_def roomState'_def out_def damageEnemy_def Let_def
    using dead by (simp split: if_splits)
qed

lemma demo_hit_eval:
  "damageDealt (fst demo_hit) = 8"
  "hp_current (demo_store 0) = 5"
  "\<not> is_dead (fst (snd demo_hit) 1)"
  "enemy_refs (snd (snd demo_hit)) = [0, 1]"
  "is_combat_active demo_room_state"
  by code_simp+

theorem damageEnemy_death_ends_combat_witness:
  "hp_current (demo_store 0) - damageDealt (fst demo_hit) \<le> 0
   \<and> enemyDied (fst demo_hit) \<and> is_dead (fst (snd demo_hit) 0)
   \<and> \<not> is_dead (fst (snd demo_hit) 1)
   \<and> is_combat_active (snd (snd demo_hit))"
  using damageEnemy_death_ends_combat
    [of demo_store 0 no_loot 10 "''blunt''" demo_room_state zero_draws 0, folded demo_hit_def]
    demo_hit_eval
  by simp

section \<open>Properties of the action processor\<close>

lemma updateRunState_rows:
  "r' \<in> set (active_runs (updateRunState db rid f)) \<longleftrightarrow>
     (\<exists>r \<in> set (active_runs db). r' = (if run_id r = rid then f r else r))"
  by (simp add: updateRunState_def image_iff del: if_image_distrib)

lemma restored_rows:
  assumes "r' \<in> set (active_runs (updateRunState db rid restoreActive))"
    and "run_id r' = rid"
  shows "status r' = Active \<and> pending_action_text r' = None"
proof -
  obtain r where "r \<in> set (active_runs db)" "r' = (if run_id r = rid then restoreActive r else r)"
    using assms(1) unfolding updateRunState_rows by blast
  then show ?thesis using assms(2) by (cases "run_id r = rid") (simp_all add: restoreActive_def)
qed

lemma locked_rows:
  assumes "r' \<in> set (active_runs (updateRunState db rid (lockTurn t)))"
    and "run_id r' = rid"
  shows "status r' = Processing \<and> pending_action_text r' = Some t"
proof -
  obtain r where "r \<in> set (active_runs db)" "r' = (if run_id r = rid then lockTurn t r else r)"
    using assms(1) unfolding updateRunState_rows by blast
  then show ?thesis using assms(2) by (cases "run_id r = rid") (simp_all add: lockTurn_def)
qed

lemma locked_row_exists:
  assumes "run \<in> set (active_runs db)"
  shows "\<exists>r \<in> set (active_runs (updateRunState db (run_id run) (lockTurn t))). run_id r = run_id run"
proof -
  have "lockTurn t run \<in> set (active_runs (updateRunState db (run_id run) (lockTurn t)))"
    unfolding updateRunState_rows using assms by force
  moreover have "run_id (lockTurn t run) = run_id run" by (simp add: lockTurn_def)
  ultimately show ?thesis by blast
qed

lemma processAction_throw:
  assumes "getActiveRun db playerId = Some run" and "status run = Active"
    and "turnThrows resolve persist logTurn run actionText
           (updateRunState db (run_id run) (lockTurn actionText)) = Some (err, dbx)"
  shows "processAction resolve persist logTurn db playerId actionText
       = (Inl (Thrown err), updateRunState dbx (run_id run) restoreActive)"
proof -
  let ?db1 = "updateRunState db (run_id run) (lockTurn actionText)"
  obtain r1 d2 where R: "resolve run actionText ?db1 = (r1, d2)" by (cases "resolve run actionText ?db1")
  show ?thesis
  proof (cases r1)
    case (Inl e)
    then show ?thesis
      using assms R by (simp add: processAction_def turnThrows_def Let_def)
  next
    case r1: (Inr res)
    obtain r2 d3 where P: "persist run res d2 = (r2, d3)" by (cases "persist run res d2")
    show ?thesis
    proof (cases r2)
      case (Inl e)
      then show ?thesis
        using assms R r1 P by (simp add: processAction_def turnThrows_def Let_def)
    next
      case r2: (Inr res')
      let ?db4 = "updateRunState d3 (run_id run) (closeTurn res')"
      obtain r3 d5 where L: "logTurn run res' ?db4 = (r3, d5)" by (cases "logTurn run res' ?db4")
      show ?thesis
      proof (cases r3)
        case (Inl e)
        then show ?thesis
          using assms R r1 P r2 L by (simp add: processAction_def turnThrows_def Let_def)
      next
        case (Inr u)
        then show ?thesis
          using assms R r1 P r2 L by (simp add: processAction_def turnThrows_def Let_def)
      qed
    qed
  qed
qed

text \<open>
  C2. For every call of \<open>processAction\<close>: when the player has no run with status
  \<open>active\<close> (no run at all, or one that is \<open>processing\<close>), the request is rejected
  with an error and the database is untouched. Otherwise the run's row is set to
  \<open>processing\<close>, with the action text as pending marker, before the turn is resolved;
  and when the resolution or the persistence of the turn throws, the error reaches the
  caller and the run's row is back at \<open>active\<close> with the pending marker cleared.
\<close>

theorem processAction_lock:
  fixes db :: "'d database"
    and resolve :: "run_row \<Rightarrow> string \<Rightarrow> 'd database \<Rightarrow> ('e + 'r turn_result) \<times> 'd database"
    and persist :: "run_row \<Rightarrow> 'r turn_result \<Rightarrow> 'd database \<Rightarrow> ('e + 'r turn_result) \<times> 'd database"
    and logTurn :: "run_row \<Rightarrow> 'r turn_result \<Rightarrow> 'd database \<Rightarrow> ('e + unit) \<times> 'd database"
    and playerId :: int and actionText :: string
  defines "out \<equiv> processAction resolve persist logTurn db playerId actionText"
  shows "case getActiveRun db playerId of
           None \<Rightarrow> out = (Inl NoActiveRun, db)
         | Some run \<Rightarrow>
             if status run \<noteq> Active then out = (Inl RunNotActive, db)
             else (let db1 = updateRunState db (run_id run) (lockTurn actionText)
                   in (\<exists>r \<in> set (active_runs db1). run_id r = run_id run)
                    \<and> (\<forall>r \<in> set (active_runs db1). run_id r = run_id run
                          \<longrightarrow> status r = Processing \<and> pending_action_text r = Some actionText)
                    \<and> (\<forall>err dbx. turnThrows resolve persist logTurn run actionText db1
                                     = Some (err, dbx)
                          \<longrightarrow> fst out = Inl (Thrown err)
                            \<and> (\<forall>r \<in> set (active_runs (snd out)). run_id r = run_id run
                                   \<longrightarrow> status r = Active \<and> pending_action_text r = None)))"
proof (cases "getActiveRun db playerId")
  case None
  then show ?thesis by (simp add: out_def processAction_def)
next
  case (Some run)
  show ?thesis
  proof (cases "status run = Active")
    case False
    then show ?thesis using Some by (simp add: out_def processAction_def)
  next
    case True
    let ?db1 = "updateRunState db (run_id run) (lockTurn actionText)"
    have "run \<in> set (active_runs db)"
      using Some unfolding getActiveRun_def by (auto simp: find_Some_iff)
    then have ex: "\<exists>r \<in> set (active_runs ?db1). run_id r = run_id run"
      by (rule locked_row_exists)
    have lk: "\<forall>r \<in> set (active_runs ?db1). run_id r = run_id run
                \<longrightarrow> status r = Processing \<and> pending_action_text r = Some actionText"
      using locked_rows by blast
    have th: "\<forall>err dbx. turnThrows resolve persist logTurn run actionText ?db1 = Some (err, dbx)
                \<longrightarrow> fst out = Inl (Thrown err)
                  \<and> (\<forall>r \<in> set (active_runs (snd out)). run_id r = run_id run
                         \<longrightarrow> status r = Active \<and> pending_action_text r = None)"
    proof (intro allI impI)
      fix err dbx
      assume t: "turnThrows resolve persist logTurn run actionText ?db1 = Some (err, dbx)"
      have o: "out = (Inl (Thrown err), updateRunState dbx (run_id run) restoreActive)"
        unfolding out_def by (rule processAction_throw [OF Some True t])
      show "fst out = Inl (Thrown err)
          \<and> (\<forall>r \<in> set (active_runs (snd out)).
                 run_id r = run_id run \<longrightarrow> status r = Active \<and> pending_action_text r = None)"
        unfolding o using restored_rows by auto
    qed
    from ex lk th have "(\<exists>r \<in> set (active_runs ?db1). run_id r = run_id run)
          \<and> (\<forall>r \<in> set (active_runs ?db1). run_id r = run_id run
                \<longrightarrow> status r = Processing \<and> pending_action_text r = Some actionText)
          \<and> (\<forall>err dbx. turnThrows resolve persist logTurn run actionText ?db1 = Some (err, dbx)
                \<longrightarrow> fst out = Inl (Thrown err)
                  \<and> (\<forall>r \<in> set (active_runs (snd out)). run_id r = run_id run
                         \<longrightarrow> status r = Active \<and> pending_action_text r = None))"
      by blast
    then show ?thesis unfolding Some option.case Let_def using True by simp
  qed
qed


lemma demo_turn:
  "getActiveRun demo_db 7 = Some demo_run"
  "status demo_run = Active"
  "run_id demo_run = 1"
  "turnThrows demo_resolve demo_persist demo_log demo_run ''open the door''
     (updateRunState demo_db 1 (lockTurn ''open the door''))
   = Some (''SQLITE_BUSY'',
           \<lparr>active_runs = [lockTurn ''open the door'' demo_run], other_tables = 1\<rparr>)"
  "map status (active_runs (snd (processAction demo_resolve demo_persist demo_log demo_db 7
      ''open the door''))) = [Active]"
  "map pending_action_text (active_runs (snd (processAction demo_resolve demo_persist demo_log
      demo_db 7 ''open the door''))) = [None]"
  by (simp_all add: getActiveRun_def demo_db_def demo_run_def turnThrows_def demo_resolve_def
      demo_persist_def demo_log_def updateRunState_def processAction_def lockTurn_def
      restoreActive_def)

theorem processAction_lock_witness:
  "getActiveRun demo_db 7 = Some demo_run \<and> status demo_run = Active
   \<and> fst (processAction demo_resolve demo_persist demo_log demo_db 7 ''open the door'')
       = Inl (Thrown ''SQLITE_BUSY'')
   \<and> map status (active_runs (snd (processAction demo_resolve demo_persist demo_log demo_db 7
        ''open the door''))) = [Active]
   \<and> map pending_action_text (active_runs (snd (processAction demo_resolve demo_persist
        demo_log demo_db 7 ''open the door''))) = [None]"
  using processAction_lock [where db = demo_db and playerId = 7 and resolve = demo_resolve
      and persist = demo_persist and logTurn = demo_log and actionText = "''open the door''"]
    demo_turn
  by (simp add: Let_def)

lemma addXp_keeps [simp]:
  "diceResults (addXp xs res) = diceResults res"
  "checks (addXp xs res) = checks res"
  "lockpickConsumed (addXp xs res) = lockpickConsumed res"
  "noLockpick (addXp xs res) = noLockpick res"
  by (induction xs arbitrary: res) (simp_all add: Let_def)

lemma processChestLoot_keeps [simp]:
  "diceResults (fst (processChestLoot env res room)) = diceResults res"
  "checks (fst (processChestLoot env res room)) = checks res"
  "lockpickConsumed (fst (processChestLoot env res room)) = lockpickConsumed res"
  "noLockpick (fst (processChestLoot env res room)) = noLockpick res"
  by (simp_all add: processChestLoot_def split: option.splits)

lemma lockpickEffect_keeps [simp]:
  "inventory (lockpickEffect env tgt st) = inventory st"
  "diceResults (result (lockpickEffect env tgt st)) = diceResults (result st)"
  "checks (result (lockpickEffect env tgt st)) = checks (result st)"
  "lockpickConsumed (result (lockpickEffect env tgt st)) = lockpickConsumed (result st)"
  "noLockpick (result (lockpickEffect env tgt st)) = noLockpick (result st)"
  by (simp_all add: lockpickEffect_def Let_def split: option.splits lockpick_target.splits)

lemma trapHandling_keeps [simp]:
  "inventory (trapHandling env sname check st) = inventory st"
  "diceResults (result (trapHandling env sname check st)) = diceResults (result st)"
  "checks (result (trapHandling env sname check st)) = checks (result st)"
  "lockpickConsumed (result (trapHandling env sname check st)) = lockpickConsumed (result st)"
  "noLockpick (result (trapHandling env sname check st)) = noLockpick (result st)"
  by (simp_all add: trapHandling_def Let_def split: option.splits)

lemma awardXp_keeps [simp]:
  "inventory (awardXp sname check st) = inventory st"
  "diceResults (result (awardXp sname check st)) = diceResults (result st)"
  "checks (result (awardXp sname check st)) = checks (result st)"
  "lockpickConsumed (result (awardXp sname check st)) = lockpickConsumed (result st)"
  "noLockpick (result (awardXp sname check st)) = noLockpick (result st)"
  by (simp_all add: awardXp_def Let_def)

lemma rollSkillCheck_keeps:
  "inventory (rollSkillCheck env sname dcv tgt st) = inventory st"
  "diceResults (result (rollSkillCheck env sname dcv tgt st))
     = diceResults (result st) @ [rolledCheck env sname dcv]"
  "checks (result (rollSkillCheck env sname dcv tgt st))
     = checks (result st) @ [(sname, rolledCheck env sname dcv)]"
  "lockpickConsumed (result (rollSkillCheck env sname dcv tgt st)) = lockpickConsumed (result st)"
  "noLockpick (result (rollSkillCheck env sname dcv tgt st)) = noLockpick (result st)"
  by (simp_all add: rollSkillCheck_def Let_def)

lemma no_row_with_id:
  assumes "inv_id p \<notin> inv_id ` set rows"
  shows "filter (\<lambda>r. inv_id r \<noteq> inv_id p) rows = rows"
    and "map (\<lambda>r. if inv_id r = inv_id p then f r else r) rows = rows"
    and "find (\<lambda>r. inv_id r = inv_id p) rows = None"
  using assms by (induction rows) auto

lemma pickTotal_Cons:
  "pickTotal (r # rows)
     = (if inv_item_name r = ''Thieves' Pick'' then inv_quantity r else 0) + pickTotal rows"
  by (simp add: pickTotal_def)

lemma same_id_same_row:
  assumes "distinct (map inv_id (r # rows))" and "p \<in> set (r # rows)" and "inv_id r = inv_id p"
  shows "p = r" and "inv_id p \<notin> inv_id ` set rows"
proof -
  have d: "inv_id r \<notin> inv_id ` set rows" using assms(1) by auto
  then show "p = r" using assms(2,3) by (metis image_eqI set_ConsD)
  then show "inv_id p \<notin> inv_id ` set rows" using d by simp
qed

lemma find_by_id:
  assumes "distinct (map inv_id rows)" and "p \<in> set rows"
  shows "find (\<lambda>r. inv_id r = inv_id p) rows = Some p"
  using assms
proof (induction rows)
  case Nil
  then show ?case by simp
next
  case (Cons r rows)
  show ?case
  proof (cases "inv_id r = inv_id p")
    case True
    then have "p = r" using Cons.prems(1,2) by (rule same_id_same_row(1) [rotated 2])
    then show ?thesis by simp
  next
    case False
    then show ?thesis using Cons by auto
  qed
qed

lemma pickTotal_delete:
  assumes "distinct (map inv_id rows)" and "p \<in> set rows"
    and "inv_item_name p = ''Thieves' Pick''"
  shows "pickTotal (filter (\<lambda>r. inv_id r \<noteq> inv_id p) rows) = pickTotal rows - inv_quantity p"
  using assms
proof (induction rows)
  case Nil
  then show ?case by simp
next
  case (Cons r rows)
  show ?case
  proof (cases "inv_id r = inv_id p")
    case True
    note s = same_id_same_row [OF Cons.prems(1,2) True]
    show ?thesis
      using no_row_with_id(1) [OF s(2)] s(1) Cons.prems(3) by (simp add: pickTotal_Cons)
  next
    case False
    then have "p \<in> set rows" using Cons.prems(2) by auto
    moreover have "distinct (map inv_id rows)" using Cons.prems(1) by simp
    ultimately show ?thesis
      using Cons.IH Cons.prems(3) False by (simp add: pickTotal_Cons)
  qed
qed

lemma pickTotal_lower:
  assumes "distinct (map inv_id rows)" and "p \<in> set rows"
    and "inv_item_name p = ''Thieves' Pick''"
  shows "pickTotal (map (\<lambda>r. if inv_id r = inv_id p
                                then r\<lparr>inv_quantity := inv_quantity r - 1\<rparr> else r) rows)
           = pickTotal rows - 1"
  using assms
proof (induction rows)
  case Nil
  then show ?case by simp
next
  case (Cons r rows)
  show ?case
  proof (cases "inv_id r = inv_id p")
    case True
    note s = same_id_same_row [OF Cons.prems(1,2) True]
    show ?thesis
      using no_row_with_id(2) [OF s(2)] s(1) Cons.prems(3) by (simp add: pickTotal_Cons)
  next
    case False
    then have "p \<in> set rows" using Cons.prems(2) by auto
    moreover have "distinct (map inv_id rows)" using Cons.prems(1) by simp
    ultimately show ?thesis
      using Cons.IH Cons.prems(3) False by (simp add: pickTotal_Cons)
  qed
qed

lemma removeItem_one_pick:
  assumes "distinct (map inv_id rows)" and "find isPick rows = Some pick"
  shows "pickTotal (removeItem rows (inv_id pick) 1) = pickTotal rows - 1"
proof -
  have p: "pick \<in> set rows" "isPick pick"
    using assms(2) by (auto simp: find_Some_iff)
  then have n: "inv_item_name pick = ''Thieves' Pick''" "inv_quantity pick > 0"
    by (simp_all add: isPick_def)
  have f: "find (\<lambda>r. inv_id r = inv_id pick) rows = Some pick"
    using find_by_id [OF assms(1) p(1)] .
  show ?thesis
  proof (cases "inv_quantity pick \<le> 1")
    case True
    then have "inv_quantity pick = 1" using n(2) by simp
    then show ?thesis
      using pickTotal_delete [OF assms(1) p(1) n(1)] f True by (simp add: removeItem_def)
  next
    case False
    then show ?thesis
      using pickTotal_lower [OF assms(1) p(1) n(1)] f by (simp add: removeItem_def)
  qed
qed

text \<open>
  C10. For every lockpicking skill check that targets a lock (the lock of the current
  room, a locked chest in it, or an adjacent locked room): when the inventory holds no
  Thieves' Pick, nothing happens but the report of the missing pick: no check is rolled or
  recorded and the inventory, the floor map and the skills are as before. Otherwise one
  Thieves' Pick is removed from the inventory (of the first row that holds one) and then
  exactly one check is rolled, whatever the d20 shows, so the pick is gone also when the
  check fails.
\<close>

theorem lockpick_consumes_pick:
  fixes env :: skill_check_env and st :: turn_state
  defines "currentRoom \<equiv> floorMap st ! current_index env"
  defines "out \<equiv> processSkillCheck env st"
  assumes "current_index env < length (floorMap st)"
    and "intent_skill env = Some ''lockpicking''"
    and "chooseDC env ''lockpicking'' currentRoom (floorMap st) = (dcv, Some target)"
  shows "case find isPick (inventory st) of
           None \<Rightarrow> out = st\<lparr>result := (result st)\<lparr>noLockpick := True\<rparr>\<rparr>
         | Some pick \<Rightarrow>
             inventory out = removeItem (inventory st) (inv_id pick) 1
           \<and> lockpickConsumed (result out)
           \<and> noLockpick (result out) = noLockpick (result st)
           \<and> diceResults (result out)
                = diceResults (result st) @ [rolledCheck env ''lockpicking'' dcv]
           \<and> (distinct (map inv_id (inventory st))
                 \<longrightarrow> pickTotal (inventory out) = pickTotal (inventory st) - 1)"
proof (cases "find isPick (inventory st)")
  case None
  then show ?thesis
    using assms(4,5) unfolding out_def currentRoom_def processSkillCheck_def Let_def
    by simp
next
  case (Some pick)
  let ?st1 = "st\<lparr>inventory := removeItem (inventory st) (inv_id pick) 1,
                result := (result st)\<lparr>lockpickConsumed := True\<rparr>\<rparr>"
  have o: "out = rollSkillCheck env ''lockpicking'' dcv (Some target) ?st1"
    using assms(4,5) Some unfolding out_def currentRoom_def processSkillCheck_def Let_def
    by simp
  show ?thesis
    unfolding Some option.case o
    by (simp add: rollSkillCheck_keeps removeItem_one_pick [OF _ Some])
qed

lemma demo_lockpick:
  "current_index demo_env < length (floorMap demo_state)"
  "intent_skill demo_env = Some ''lockpicking''"
  "chooseDC demo_env ''lockpicking'' (floorMap demo_state ! current_index demo_env)
     (floorMap demo_state) = (14, Some (AdjacentRoom 3))"
  "find isPick (inventory demo_state)
     = Some \<lparr>inv_id = 11, inv_item_id = 40, inv_item_name = ''Thieves' Pick'', inv_quantity = 2\<rparr>"
  "distinct (map inv_id (inventory demo_state))"
  "pickTotal (inventory demo_state) = 2"
  "\<not> passed (rolledCheck demo_env ''lockpicking'' 14)"
  "map inv_quantity (removeItem (inventory demo_state) 11 1) = [1, 1]"
  "pickTotal (removeItem (inventory demo_state) 11 1) = 1"
  by code_simp+

theorem lockpick_consumes_pick_witness:
  "current_index demo_env < length (floorMap demo_state)
   \<and> intent_skill demo_env = Some ''lockpicking''
   \<and> chooseDC demo_env ''lockpicking'' (floorMap demo_state ! current_index demo_env)
        (floorMap demo_state) = (14, Some (AdjacentRoom 3))
   \<and> \<not> passed (rolledCheck demo_env ''lockpicking'' 14)
   \<and> map inv_quantity (inventory (processSkillCheck demo_env demo_state)) = [1, 1]
   \<and> lockpickConsumed (result (processSkillCheck demo_env demo_state))
   \<and> pickTotal (inventory (processSkillCheck demo_env demo_state)) = 1"
  using lockpick_consumes_pick [OF demo_lockpick(1,2,3)] demo_lockpick
  by simp

end
